theory Spec2Isabelle
  imports Complex_Main
begin

section \<open>Data model\<close>

text \<open>
  The dataclass \<open>LLMProvider\<close> of \<open>bot.py\<close>. \<open>latency_ms\<close> is a Python float that
  only ever holds a measured duration; it is kept as a real number.
\<close>

record llm_provider =
  name :: string
  api_base :: string
  model :: string
  api_key :: "string option"
  timeout :: int
  healthy :: bool
  last_error :: "string option"
  latency_ms :: real

text \<open>The part of \<open>Config\<close> that \<open>LLMManager\<close> reads.\<close>

record config =
  LOCAL_LLM_API_BASE :: string
  LOCAL_LLM_MODEL :: string
  LOCAL_LLM_TIMEOUT :: int
  OPENAI_API_KEY :: "string option"

text \<open>
  Provider objects are shared by reference: \<open>self.providers\<close> holds references, and
  \<open>health_check\<close> mutates whichever object it is handed. The model keeps an explicit
  store of provider objects; \<open>providers\<close> is the list of the addresses the manager
  holds. \<open>current_provider_index\<close> is only ever \<open>0\<close> or a remainder, hence a natural number.
\<close>

type_synonym addr = nat

record llm_manager =
  config :: config
  store :: "addr \<Rightarrow> llm_provider"
  providers :: "addr list"
  current_provider_index :: nat

text \<open>Exceptions of the interpreter, each carrying the text that \<open>str(e)\<close> gives.\<close>

datatype exn =
    KeyError string
  | IndexError string
  | TypeError string
  | AttributeError string

fun str_exn :: "exn \<Rightarrow> string" where
  "str_exn (KeyError t) = t"
| "str_exn (IndexError t) = t"
| "str_exn (TypeError t) = t"
| "str_exn (AttributeError t) = t"

section \<open>JSON values and the subscripts of the reply\<close>

datatype json =
    JNull
  | JBool bool
  | JInt int
  | JFloat real
  | JStr string
  | JArr "json list"
  | JObj "(string \<times> json) list"

definition quoted :: "string \<Rightarrow> string" where
  "quoted s = [CHR 0x27] @ s @ [CHR 0x27]"

definition not_subscriptable :: "string \<Rightarrow> exn" where
  "not_subscriptable ty = TypeError (quoted ty @ '' object is not subscriptable'')"

definition no_attribute :: "string \<Rightarrow> exn" where
  "no_attribute attr =
     AttributeError (quoted ''NoneType'' @ '' object has no attribute '' @ quoted attr)"

text \<open>
  \<open>x[k]\<close> for a string key \<open>k\<close>. A \<open>JObj\<close> lists the items of a parsed dict, whose keys
  are distinct. The message texts are CPython's; nothing below depends on their wording.
\<close>

fun subscript_key :: "json \<Rightarrow> string \<Rightarrow> exn + json" where
  "subscript_key (JObj kvs) k =
     (case map_of kvs k of None \<Rightarrow> Inl (KeyError (quoted k)) | Some v \<Rightarrow> Inr v)"
| "subscript_key (JArr vs) k =
     Inl (TypeError ''list indices must be integers or slices, not str'')"
| "subscript_key (JStr s) k =
     Inl (TypeError (''string indices must be integers, not '' @ quoted ''str''))"
| "subscript_key JNull k = Inl (not_subscriptable ''NoneType'')"
| "subscript_key (JBool b) k = Inl (not_subscriptable ''bool'')"
| "subscript_key (JInt i) k = Inl (not_subscriptable ''int'')"
| "subscript_key (JFloat r) k = Inl (not_subscriptable ''float'')"

text \<open>\<open>x[0]\<close>. The keys of a parsed JSON object are strings, so \<open>0\<close> is never one.\<close>

fun subscript_0 :: "json \<Rightarrow> exn + json" where
  "subscript_0 (JArr []) = Inl (IndexError ''list index out of range'')"
| "subscript_0 (JArr (v # vs)) = Inr v"
| "subscript_0 (JObj kvs) = Inl (KeyError ''0'')"
| "subscript_0 (JStr []) = Inl (IndexError ''string index out of range'')"
| "subscript_0 (JStr (c # cs)) = Inr (JStr [c])"
| "subscript_0 JNull = Inl (not_subscriptable ''NoneType'')"
| "subscript_0 (JBool b) = Inl (not_subscriptable ''bool'')"
| "subscript_0 (JInt i) = Inl (not_subscriptable ''int'')"
| "subscript_0 (JFloat r) = Inl (not_subscriptable ''float'')"

text \<open>\<open>result["choices"][0]["message"]["content"]\<close>, left to right.\<close>

definition content_of :: "json \<Rightarrow> exn + json" where
  "content_of result =
     (case subscript_key result ''choices'' of
        Inl e \<Rightarrow> Inl e
      | Inr choices \<Rightarrow>
          (case subscript_0 choices of
             Inl e \<Rightarrow> Inl e
           | Inr choice \<Rightarrow>
               (case subscript_key choice ''message'' of
                  Inl e \<Rightarrow> Inl e
                | Inr message \<Rightarrow> subscript_key message ''content'')))"

section \<open>What the network answers\<close>

text \<open>
  One outbound POST either raises before a reply is there (timeout, refused connection,
  and so on; \<open>Raised t\<close> with \<open>t = str(e)\<close>), or yields a reply:
  its status, the milliseconds \<open>(time.time() - start) * 1000\<close> measured when it arrived,
  what \<open>await resp.text()\<close> gives and what \<open>await resp.json()\<close> gives
  (\<open>Inl t\<close> when that call raises an exception with text \<open>t\<close>).
\<close>

datatype outcome =
    Raised string
  | Reply (status: nat) (elapsed_ms: real) (text_of: "string + string") (json_of: "string + json")

text \<open>The decimal digits of \<open>resp.status\<close> in an f-string.\<close>

fun str_nat :: "nat \<Rightarrow> string" where
  "str_nat n =
     (if n < 10 then [''0123456789'' ! n]
      else str_nat (n div 10) @ [''0123456789'' ! (n mod 10)])"

declare str_nat.simps [simp del]

text \<open>The dict that \<open>generate\<close> returns, as its two shapes.\<close>

datatype gen_result =
    Success (r_provider: string) (r_model: string) (r_content: json) (r_latency_ms: real)
  | Failure (r_error: string) (r_provider: string)

section \<open>Construction\<close>

text \<open>
  \<open>LLMProvider(...)\<close> with the defaults of the dataclass for the fields the call
  leaves out.
\<close>

definition LLMProvider :: "string \<Rightarrow> string \<Rightarrow> string \<Rightarrow> string option \<Rightarrow> int \<Rightarrow> llm_provider" where
  "LLMProvider n b mo k t =
     \<lparr>name = n, api_base = b, model = mo, api_key = k, timeout = t,
      healthy = True, last_error = None, latency_ms = 0\<rparr>"

text \<open>
  \<open>self.providers.append(p)\<close> with \<open>p\<close> a newly created object: the object goes to
  the first address past the ones the manager already holds.
\<close>

definition append_provider :: "llm_provider \<Rightarrow> llm_manager \<Rightarrow> llm_manager" where
  "append_provider p m =
     m\<lparr>store := (store m)(length (providers m) := p),
       providers := providers m @ [length (providers m)]\<rparr>"

text \<open>\<open>LLMManager._setup_providers\<close> of \<open>bot.py\<close>. An empty string is falsy.\<close>

definition setup_providers :: "llm_manager \<Rightarrow> llm_manager" where
  "setup_providers m =
     (let m1 =
        (if LOCAL_LLM_API_BASE (config m) \<noteq> [] then
           append_provider
             (LLMProvider ''LOCAL'' (LOCAL_LLM_API_BASE (config m))
                (if LOCAL_LLM_MODEL (config m) \<noteq> [] then LOCAL_LLM_MODEL (config m)
                 else ''default'')
                None (LOCAL_LLM_TIMEOUT (config m))) m
         else m)
      in
        (if OPENAI_API_KEY (config m1) \<noteq> None \<and> OPENAI_API_KEY (config m1) \<noteq> Some [] then
           append_provider
             (LLMProvider ''OPENAI'' ''https://api.openai.com/v1'' ''gpt-4o-mini''
                (OPENAI_API_KEY (config m1)) 30) m1
         else m1))"

text \<open>
  \<open>LLMManager.__init__\<close>. \<open>h\<close> holds the provider objects that exist apart from the
  manager's own; the constructor's objects take the addresses \<open>0\<close> and \<open>1\<close>.
\<close>

definition new_manager :: "config \<Rightarrow> (addr \<Rightarrow> llm_provider) \<Rightarrow> llm_manager" where
  "new_manager cfg h =
     setup_providers \<lparr>config = cfg, store = h, providers = [], current_provider_index = 0\<rparr>"

section \<open>The manager's operations\<close>

text \<open>The property \<open>current_provider\<close>: \<open>None\<close> on an empty list, else \<open>self.providers[i]\<close>.\<close>

definition current_provider :: "llm_manager \<Rightarrow> exn + addr option" where
  "current_provider m =
     (if providers m = [] then Inr None
      else if current_provider_index m < length (providers m)
           then Inr (Some (providers m ! current_provider_index m))
           else Inl (IndexError ''list index out of range''))"

definition switch_to_next_provider :: "llm_manager \<Rightarrow> exn + llm_manager" where
  "switch_to_next_provider m =
     (if length (providers m) \<le> 1 then Inr m
      else
        (case current_provider m of
           Inl e \<Rightarrow> Inl e
         | Inr None \<Rightarrow> Inl (no_attribute ''name'')
         | Inr (Some old) \<Rightarrow>
             (let m' = m\<lparr>current_provider_index :=
                          (current_provider_index m + 1) mod length (providers m)\<rparr>
              in case current_provider m' of
                   Inl e \<Rightarrow> Inl e
                 | Inr None \<Rightarrow> Inl (no_attribute ''name'')
                 | Inr (Some new) \<Rightarrow> Inr m')))"

text \<open>Writing back the object at an address.\<close>

definition put :: "addr \<Rightarrow> llm_provider \<Rightarrow> llm_manager \<Rightarrow> llm_manager" where
  "put a p m = m\<lparr>store := (store m)(a := p)\<rparr>"

text \<open>
  \<open>health_check\<close>: \<open>provider\<close> is the optional argument, \<open>out\<close> what the one POST
  answers. The result is \<open>Inl\<close> when an exception leaves the method.
\<close>

definition health_check :: "llm_manager \<Rightarrow> addr option \<Rightarrow> outcome \<Rightarrow> exn + (bool \<times> llm_manager)" where
  "health_check m provider out =
     (case (case provider of Some a \<Rightarrow> Inr (Some a) | None \<Rightarrow> current_provider m) of
        Inl e \<Rightarrow> Inl e
      | Inr None \<Rightarrow> Inr (False, m)
      | Inr (Some a) \<Rightarrow>
          (let prov = store m a in
             (case out of
                Reply st ms tx js \<Rightarrow>
                  (let p1 = prov\<lparr>latency_ms := ms\<rparr>;
                       p2 = p1\<lparr>healthy := (st = 200)\<rparr>;
                       p3 = (if \<not> healthy p2
                             then p2\<lparr>last_error := Some (''HTTP '' @ str_nat st)\<rparr> else p2)
                   in Inr (healthy p3, put a p3 m))
              | Raised t \<Rightarrow>
                  Inr (False, put a (prov\<lparr>healthy := False, last_error := Some t\<rparr>) m))))"

text \<open>
  The body of the \<open>try\<close> in \<open>generate\<close> for one attempt: the provider object as the
  body leaves it, and either the dict it returns or the text of the exception it raises.
\<close>

definition try_generate :: "outcome \<Rightarrow> llm_provider \<Rightarrow> (string + gen_result) \<times> llm_provider" where
  "try_generate out provider =
     (case out of
        Raised t \<Rightarrow> (Inl t, provider)
      | Reply st ms tx js \<Rightarrow>
          (if st = 200 then
             (let p1 = provider\<lparr>latency_ms := ms\<rparr>;
                  p2 = p1\<lparr>healthy := True\<rparr>
              in case js of
                   Inl t \<Rightarrow> (Inl t, p2)
                 | Inr result \<Rightarrow>
                     (case content_of result of
                        Inl e \<Rightarrow> (Inl (str_exn e), p2)
                      | Inr c \<Rightarrow>
                          (Inr (Success (name p2) (model p2) c (latency_ms p2)), p2)))
           else
             (case tx of
                Inl t \<Rightarrow> (Inl t, provider)
              | Inr body \<Rightarrow>
                  (Inl (''HTTP '' @ str_nat st @ '': '' @ take 200 body), provider))))"

text \<open>
  The \<open>while\<close> loop of \<open>generate\<close>. \<open>net k\<close> is what the network answers to the
  attempt numbered \<open>k\<close> of this call; \<open>tr\<close> collects, in order, the index of the
  provider each attempt goes to.
\<close>

function generate_loop ::
  "(nat \<Rightarrow> outcome) \<Rightarrow> nat \<Rightarrow> nat \<Rightarrow> llm_manager \<Rightarrow> nat list
     \<Rightarrow> exn + (gen_result \<times> llm_manager \<times> nat list)" where
  "generate_loop net max_attempts attempts m tr =
     (if attempts < max_attempts then
        (case current_provider m of
           Inl e \<Rightarrow> Inl e
         | Inr None \<Rightarrow> Inl (no_attribute ''healthy'')
         | Inr (Some a) \<Rightarrow>
             (case try_generate (net attempts) (store m a) of
                (Inr r, p) \<Rightarrow> Inr (r, put a p m, tr @ [current_provider_index m])
              | (Inl t, p) \<Rightarrow>
                  (let m1 = put a (p\<lparr>healthy := False, last_error := Some t\<rparr>) m in
                     if attempts < max_attempts - 1 then
                       (case switch_to_next_provider m1 of
                          Inl e \<Rightarrow> Inl e
                        | Inr m2 \<Rightarrow>
                            generate_loop net max_attempts (attempts + 1) m2
                              (tr @ [current_provider_index m]))
                     else
                       generate_loop net max_attempts (attempts + 1) m1
                         (tr @ [current_provider_index m]))))
      else Inr (Failure ''All providers failed'' ''NONE'', m, tr))"
  by pat_completeness auto
termination
  by (relation "measure (\<lambda>(net, max_attempts, attempts, m, tr). max_attempts - attempts)") auto

declare generate_loop.simps [simp del]

definition generate :: "llm_manager \<Rightarrow> (nat \<Rightarrow> outcome) \<Rightarrow> exn + (gen_result \<times> llm_manager \<times> nat list)" where
  "generate m net =
     (if providers m = [] then Inr (Failure ''No LLM providers configured'' ''NONE'', m, [])
      else generate_loop net (length (providers m)) 0 m [])"


section \<open>The copy under \<open>clawdbot/\<close>\<close>

text \<open>
  \<open>clawdbot/bot.py\<close> holds an earlier copy of the same classes. Its functions are
  given the suffix \<open>_pkg\<close>. They differ from the ones above in four places: the LOCAL
  provider is appended whatever the configuration says, \<open>current_provider\<close> and
  \<open>switch_to_next_provider\<close> have no guard for short lists, \<open>generate\<close> has no
  early return for an empty list, and the exception for a status other than 200 leaves
  the body out.
\<close>

definition setup_providers_pkg :: "llm_manager \<Rightarrow> llm_manager" where
  "setup_providers_pkg m =
     (let m1 =
        append_provider
          (LLMProvider ''LOCAL'' (LOCAL_LLM_API_BASE (config m)) (LOCAL_LLM_MODEL (config m))
             None (LOCAL_LLM_TIMEOUT (config m))) m
      in
        (if OPENAI_API_KEY (config m1) \<noteq> None \<and> OPENAI_API_KEY (config m1) \<noteq> Some [] then
           append_provider
             (LLMProvider ''OPENAI'' ''https://api.openai.com/v1'' ''gpt-4o-mini''
                (OPENAI_API_KEY (config m1)) 30) m1
         else m1))"

definition new_manager_pkg :: "config \<Rightarrow> (addr \<Rightarrow> llm_provider) \<Rightarrow> llm_manager" where
  "new_manager_pkg cfg h =
     setup_providers_pkg \<lparr>config = cfg, store = h, providers = [], current_provider_index = 0\<rparr>"

definition current_provider_pkg :: "llm_manager \<Rightarrow> exn + addr" where
  "current_provider_pkg m =
     (if current_provider_index m < length (providers m)
      then Inr (providers m ! current_provider_index m)
      else Inl (IndexError ''list index out of range''))"

definition switch_to_next_provider_pkg ::
  "llm_manager \<Rightarrow> exn + ((string \<times> string) \<times> llm_manager)" where
  "switch_to_next_provider_pkg m =
     (case current_provider_pkg m of
        Inl e \<Rightarrow> Inl e
      | Inr old \<Rightarrow>
          (let old_provider = name (store m old);
               m' = m\<lparr>current_provider_index :=
                       (current_provider_index m + 1) mod length (providers m)\<rparr>
           in case current_provider_pkg m' of
                Inl e \<Rightarrow> Inl e
              | Inr new \<Rightarrow> Inr ((old_provider, name (store m' new)), m')))"

definition health_check_pkg ::
  "llm_manager \<Rightarrow> addr option \<Rightarrow> outcome \<Rightarrow> exn + (bool \<times> llm_manager)" where
  "health_check_pkg m provider out =
     (case (case provider of Some a \<Rightarrow> Inr a | None \<Rightarrow> current_provider_pkg m) of
        Inl e \<Rightarrow> Inl e
      | Inr a \<Rightarrow>
          (let prov = store m a in
             (case out of
                Reply st ms tx js \<Rightarrow>
                  (let p1 = prov\<lparr>latency_ms := ms\<rparr>;
                       p2 = p1\<lparr>healthy := (st = 200)\<rparr>;
                       p3 = (if \<not> healthy p2
                             then p2\<lparr>last_error := Some (''HTTP '' @ str_nat st)\<rparr> else p2)
                   in Inr (healthy p3, put a p3 m))
              | Raised t \<Rightarrow>
                  Inr (False, put a (prov\<lparr>healthy := False, last_error := Some t\<rparr>) m))))"

definition try_generate_pkg ::
  "outcome \<Rightarrow> llm_provider \<Rightarrow> (string + gen_result) \<times> llm_provider" where
  "try_generate_pkg out provider =
     (case out of
        Raised t \<Rightarrow> (Inl t, provider)
      | Reply st ms tx js \<Rightarrow>
          (if st = 200 then
             (let p1 = provider\<lparr>latency_ms := ms\<rparr>;
                  p2 = p1\<lparr>healthy := True\<rparr>
              in case js of
                   Inl t \<Rightarrow> (Inl t, p2)
                 | Inr result \<Rightarrow>
                     (case content_of result of
                        Inl e \<Rightarrow> (Inl (str_exn e), p2)
                      | Inr c \<Rightarrow>
                          (Inr (Success (name p2) (model p2) c (latency_ms p2)), p2)))
           else (Inl (''HTTP '' @ str_nat st), provider)))"

function generate_loop_pkg ::
  "(nat \<Rightarrow> outcome) \<Rightarrow> nat \<Rightarrow> nat \<Rightarrow> llm_manager \<Rightarrow> nat list
     \<Rightarrow> exn + (gen_result \<times> llm_manager \<times> nat list)" where
  "generate_loop_pkg net max_attempts attempts m tr =
     (if attempts < max_attempts then
        (case current_provider_pkg m of
           Inl e \<Rightarrow> Inl e
         | Inr a \<Rightarrow>
             (case try_generate_pkg (net attempts) (store m a) of
                (Inr r, p) \<Rightarrow> Inr (r, put a p m, tr @ [current_provider_index m])
              | (Inl t, p) \<Rightarrow>
                  (let m1 = put a (p\<lparr>healthy := False, last_error := Some t\<rparr>) m in
                     if attempts < max_attempts - 1 then
                       (case switch_to_next_provider_pkg m1 of
                          Inl e \<Rightarrow> Inl e
                        | Inr (names, m2) \<Rightarrow>
                            generate_loop_pkg net max_attempts (attempts + 1) m2
                              (tr @ [current_provider_index m]))
                     else
                       generate_loop_pkg net max_attempts (attempts + 1) m1
                         (tr @ [current_provider_index m]))))
      else Inr (Failure ''All providers failed'' ''NONE'', m, tr))"
  by pat_completeness auto
termination
  by (relation "measure (\<lambda>(net, max_attempts, attempts, m, tr). max_attempts - attempts)") auto

declare generate_loop_pkg.simps [simp del]

definition generate_pkg ::
  "llm_manager \<Rightarrow> (nat \<Rightarrow> outcome) \<Rightarrow> exn + (gen_result \<times> llm_manager \<times> nat list)" where
  "generate_pkg m net = generate_loop_pkg net (length (providers m)) 0 m []"

section \<open>Notions the properties are stated with\<close>

text \<open>
  An attempt succeeds when the reply has status 200, \<open>resp.json()\<close> returns, and the four
  subscripts resolve; \<open>try_generate_succeeds\<close> below shows that this is exactly when the
  body of the \<open>try\<close> returns.
\<close>

definition succeeds :: "outcome \<Rightarrow> bool" where
  "succeeds out =
     (case out of
        Raised t \<Rightarrow> False
      | Reply st ms tx js \<Rightarrow>
          st = 200 \<and>
          (case js of
             Inl t \<Rightarrow> False
           | Inr j \<Rightarrow> (case content_of j of Inl e \<Rightarrow> False | Inr c \<Rightarrow> True)))"

text \<open>Whether a reply arrived and its status was 200.\<close>

definition replied_200 :: "outcome \<Rightarrow> bool" where
  "replied_200 out = (case out of Raised t \<Rightarrow> False | Reply st ms tx js \<Rightarrow> st = 200)"

text \<open>
  The provider object after one attempt of \<open>generate\<close>: as the \<open>try\<close> body leaves it
  when that returns, and with the writes of the \<open>except\<close> handler on top otherwise.
\<close>

definition after_attempt :: "outcome \<Rightarrow> llm_provider \<Rightarrow> llm_provider" where
  "after_attempt out p =
     (case try_generate out p of
        (Inr r, p') \<Rightarrow> p'
      | (Inl t, p') \<Rightarrow> p'\<lparr>healthy := False, last_error := Some t\<rparr>)"

text \<open>The fields of a provider that no operation writes.\<close>

definition identity :: "llm_provider \<Rightarrow> string \<times> string \<times> string \<times> string option \<times> int" where
  "identity p = (name p, api_base p, model p, api_key p, timeout p)"

text \<open>
  \<open>slot m j\<close> is the object \<open>j\<close> places after the current one, going round the list;
  \<open>rotated m l\<close> the first \<open>l\<close> indices in that order.
\<close>

definition slot :: "llm_manager \<Rightarrow> nat \<Rightarrow> addr" where
  "slot m j = providers m ! ((current_provider_index m + j) mod length (providers m))"

definition rotated :: "llm_manager \<Rightarrow> nat \<Rightarrow> nat list" where
  "rotated m l = map (\<lambda>j. (current_provider_index m + j) mod length (providers m)) [0..<l]"

text \<open>
  The store after \<open>l\<close> attempts, the first of them numbered \<open>a\<close>, each at the next slot.
\<close>

definition replay :: "(nat \<Rightarrow> outcome) \<Rightarrow> nat \<Rightarrow> llm_manager \<Rightarrow> nat \<Rightarrow> addr \<Rightarrow> llm_provider" where
  "replay net a m l =
     fold (\<lambda>j st. st(slot m j := after_attempt (net (a + j)) (st (slot m j)))) [0..<l] (store m)"

text \<open>The manager after a failed attempt that is followed by a rotation.\<close>

definition step_fail :: "(nat \<Rightarrow> outcome) \<Rightarrow> nat \<Rightarrow> llm_manager \<Rightarrow> llm_manager" where
  "step_fail net a m =
     m\<lparr>store := (store m)(slot m 0 := after_attempt (net a) (store m (slot m 0))),
       current_provider_index := (current_provider_index m + 1) mod length (providers m)\<rparr>"

text \<open>
  What the copy under \<open>clawdbot/\<close> makes of an outcome: a status other than 200 raises
  with the status alone as its text.
\<close>

definition pkg_view :: "outcome \<Rightarrow> outcome" where
  "pkg_view out =
     (case out of
        Raised t \<Rightarrow> Raised t
      | Reply st ms tx js \<Rightarrow>
          (if st = 200 then Reply st ms tx js else Raised (''HTTP '' @ str_nat st)))"

text \<open>
  The manager states that a run of the program passes through: from the state \<open>m0\<close>,
  by any of the three operations, whatever the network answers.
\<close>

inductive reachable :: "llm_manager \<Rightarrow> llm_manager \<Rightarrow> bool" for m0 :: llm_manager where
  start: "reachable m0 m0"
| rotate: "reachable m0 m \<Longrightarrow> switch_to_next_provider m = Inr m' \<Longrightarrow> reachable m0 m'"
| gen: "reachable m0 m \<Longrightarrow> generate m net = Inr (r, m', tr) \<Longrightarrow> reachable m0 m'"
| check: "reachable m0 m \<Longrightarrow> health_check m provider out = Inr (b, m') \<Longrightarrow> reachable m0 m'"

text \<open>
  The index points into the list whenever there is a list to point into; and what the
  manager holds of its registry: the list, the configuration, and every object's
  identifying fields.
\<close>

definition index_ok :: "llm_manager \<Rightarrow> bool" where
  "index_ok m = (providers m = [] \<or> current_provider_index m < length (providers m))"

definition same_registry :: "llm_manager \<Rightarrow> llm_manager \<Rightarrow> bool" where
  "same_registry m0 m \<longleftrightarrow>
     providers m = providers m0 \<and> config m = config m0 \<and>
     (\<forall>a. identity (store m a) = identity (store m0 a))"

text \<open>
  The object \<open>health_check\<close> probes, \<open>prov = provider or self.current_provider\<close>;
  what it leaves in that object and what it returns, by outcome; and the manager as a
  call of \<open>generate\<close> or of \<open>health_check\<close> leaves it.
\<close>

definition probe_target :: "llm_manager \<Rightarrow> addr option \<Rightarrow> addr option" where
  "probe_target m provider =
     (case provider of
        Some a \<Rightarrow> Some a
      | None \<Rightarrow> (if providers m = [] then None
                 else Some (providers m ! current_provider_index m)))"

definition after_generate :: "llm_manager \<Rightarrow> (nat \<Rightarrow> outcome) \<Rightarrow> llm_manager" where
  "after_generate m net = (case generate m net of Inl e \<Rightarrow> m | Inr (r, m', tr) \<Rightarrow> m')"

definition after_health_check :: "llm_manager \<Rightarrow> addr option \<Rightarrow> outcome \<Rightarrow> llm_manager" where
  "after_health_check m provider out =
     (case health_check m provider out of Inl e \<Rightarrow> m | Inr (b, m') \<Rightarrow> m')"

definition after_probe :: "outcome \<Rightarrow> llm_provider \<Rightarrow> llm_provider" where
  "after_probe out p =
     (case out of
        Reply st ms tx js \<Rightarrow>
          (if st = 200 then p\<lparr>latency_ms := ms, healthy := True\<rparr>
           else p\<lparr>latency_ms := ms, healthy := False,
                  last_error := Some (''HTTP '' @ str_nat st)\<rparr>)
      | Raised t \<Rightarrow> p\<lparr>healthy := False, last_error := Some t\<rparr>)"

definition probe_result :: "outcome \<Rightarrow> bool" where
  "probe_result out = (case out of Reply st ms tx js \<Rightarrow> st = 200 | Raised t \<Rightarrow> False)"

section \<open>Sample configurations and replies\<close>

text \<open>Concrete inputs on which the theorems below are instantiated.\<close>

definition blank_store :: "addr \<Rightarrow> llm_provider" where
  "blank_store = (\<lambda>a. LLMProvider [] [] [] None 60)"

definition cfg_none :: config where
  "cfg_none = \<lparr>LOCAL_LLM_API_BASE = [], LOCAL_LLM_MODEL = [], LOCAL_LLM_TIMEOUT = 60,
                OPENAI_API_KEY = None\<rparr>"

definition cfg_local :: config where
  "cfg_local = \<lparr>LOCAL_LLM_API_BASE = ''http://127.0.0.1:8000/v1'', LOCAL_LLM_MODEL = [],
                 LOCAL_LLM_TIMEOUT = 60, OPENAI_API_KEY = None\<rparr>"

definition cfg_both :: config where
  "cfg_both = \<lparr>LOCAL_LLM_API_BASE = ''http://127.0.0.1:8000/v1'', LOCAL_LLM_MODEL = ''llama'',
                LOCAL_LLM_TIMEOUT = 45, OPENAI_API_KEY = Some ''sk-test''\<rparr>"

definition chat_body :: "string \<Rightarrow> json" where
  "chat_body s =
     JObj [(''choices'', JArr [JObj [(''message'',
             JObj [(''role'', JStr ''assistant''), (''content'', JStr s)])]])]"

text \<open>
  A reply with status 200 and a body of the expected shape; its text is not read at that
  status and is left empty.
\<close>

definition ok_reply :: "real \<Rightarrow> string \<Rightarrow> outcome" where
  "ok_reply ms s = Reply 200 ms (Inr []) (Inr (chat_body s))"

definition down_then_up :: "nat \<Rightarrow> outcome" where
  "down_then_up k = (if k = 0 then Raised ''timeout'' else ok_reply 120 ''hi'')"

definition all_down :: "nat \<Rightarrow> outcome" where
  "all_down k = Raised ''timeout''"

definition empty_answer :: "nat \<Rightarrow> outcome" where
  "empty_answer k = ok_reply 80 []"

definition always_ok :: "nat \<Rightarrow> outcome" where
  "always_ok k = ok_reply 80 ''OK''"

definition garbled :: "nat \<Rightarrow> outcome" where
  "garbled k = Reply 200 5 (Inr ''{}'') (Inr (JObj []))"

definition local_failed :: llm_manager where
  "local_failed = after_health_check (new_manager cfg_local blank_store) None (Raised ''timeout'')"

section \<open>One attempt, and the loop step by step\<close>

lemma try_generate_succeeds:
  "succeeds out \<longleftrightarrow> (\<exists>r p'. try_generate out p = (Inr r, p'))"
  by (auto simp: succeeds_def try_generate_def Let_def split: outcome.splits sum.splits)

lemma try_generate_fails:
  "\<not> succeeds out \<longleftrightarrow> (\<exists>t p'. try_generate out p = (Inl t, p'))"
  by (auto simp: succeeds_def try_generate_def Let_def split: outcome.splits sum.splits)

lemma loop_done:
  "\<not> a < mx \<Longrightarrow> generate_loop net mx a m tr = Inr (Failure ''All providers failed'' ''NONE'', m, tr)"
  by (subst generate_loop.simps) simp

lemma loop_success:
  assumes "a < mx" "providers m \<noteq> []" "current_provider_index m < length (providers m)"
    and "succeeds (net a)"
  shows "\<exists>r. generate_loop net mx a m tr =
     Inr (r, put (providers m ! current_provider_index m)
               (after_attempt (net a) (store m (providers m ! current_provider_index m))) m,
          tr @ [current_provider_index m]) \<and> try_generate (net a) (store m (providers m ! current_provider_index m)) = (Inr r, after_attempt (net a) (store m (providers m ! current_provider_index m)))"
proof -
  from assms(4) obtain r p' where
    "try_generate (net a) (store m (providers m ! current_provider_index m)) = (Inr r, p')"
    using try_generate_succeeds by blast
  then show ?thesis using assms(1-3)
    by (subst generate_loop.simps) (simp add: current_provider_def after_attempt_def)
qed

lemma loop_fail_rotate:
  assumes "a < mx - 1" "mx = length (providers m)" "current_provider_index m < length (providers m)"
    and "\<not> succeeds (net a)"
  shows "generate_loop net mx a m tr =
     generate_loop net mx (a + 1)
       ((put (providers m ! current_provider_index m)
               (after_attempt (net a) (store m (providers m ! current_provider_index m))) m)
          \<lparr>current_provider_index := (current_provider_index m + 1) mod length (providers m)\<rparr>)
       (tr @ [current_provider_index m])"
proof -
  from assms(4) obtain t p' where
    "try_generate (net a) (store m (providers m ! current_provider_index m)) = (Inl t, p')"
    using try_generate_fails by blast
  then show ?thesis using assms(1-3)
    by (subst generate_loop.simps)
       (auto simp add: current_provider_def after_attempt_def switch_to_next_provider_def put_def Let_def)
qed

lemma loop_fail_last:
  assumes "a < mx" "\<not> a < mx - 1" "providers m \<noteq> []" "current_provider_index m < length (providers m)"
    and "\<not> succeeds (net a)"
  shows "generate_loop net mx a m tr =
     Inr (Failure ''All providers failed'' ''NONE'',
       put (providers m ! current_provider_index m)
               (after_attempt (net a) (store m (providers m ! current_provider_index m))) m,
       tr @ [current_provider_index m])"
proof -
  from assms(5) obtain t p' where
    "try_generate (net a) (store m (providers m ! current_provider_index m)) = (Inl t, p')"
    using try_generate_fails by blast
  moreover have "\<not> a + 1 < mx" using assms(2) by simp
  ultimately show ?thesis using assms(1-4)
    by (subst generate_loop.simps)
       (auto simp add: current_provider_def after_attempt_def loop_done)
qed

lemma slot_step_fail: "slot (step_fail net a m) j = slot m (Suc j)"
  by (simp add: slot_def step_fail_def mod_add_left_eq)

lemma replay_0: "replay net a m 0 = store m"
  by (simp add: replay_def)

lemma replay_Suc: "replay net a m (Suc l) = replay net (Suc a) (step_fail net a m) l"
proof -
  have "[0..<Suc l] = 0 # map Suc [0..<l]"
    by (simp add: upt_conv_Cons map_Suc_upt del: upt_Suc)
  then show ?thesis
    unfolding replay_def
    by (simp add: fold_map comp_def slot_step_fail del: upt_Suc) (simp add: step_fail_def)
qed

lemma rotated_Suc:
  "rotated m (Suc l) = current_provider_index m mod length (providers m) # rotated (step_fail net a m) l"
proof -
  have "[0..<Suc l] = 0 # map Suc [0..<l]"
    by (simp add: upt_conv_Cons map_Suc_upt del: upt_Suc)
  then show ?thesis
    unfolding rotated_def
    by (simp add: comp_def step_fail_def mod_add_left_eq del: upt_Suc)
qed

lemma slot_0: "current_provider_index m < length (providers m) \<Longrightarrow> slot m 0 = providers m ! current_provider_index m"
  by (simp add: slot_def)

lemma step_fail_fields [simp]:
  "providers (step_fail net a m) = providers m"
  "config (step_fail net a m) = config m"
  "current_provider_index (step_fail net a m) = (current_provider_index m + 1) mod length (providers m)"
  by (simp_all add: step_fail_def)

lemma replay_1:
  "replay net a m (Suc 0) = (store m)(slot m 0 := after_attempt (net a) (store m (slot m 0)))"
  by (simp add: replay_def)

lemma rotated_1: "current_provider_index m < length (providers m) \<Longrightarrow> rotated m (Suc 0) = [current_provider_index m]"
  by (simp add: rotated_def)

lemma loop_run:
  assumes "mx = length (providers m)" "current_provider_index m < mx" "a \<le> mx"
  shows "\<exists>r l. generate_loop net mx a m tr =
            Inr (r, m\<lparr>store := replay net a m l,
                      current_provider_index := (current_provider_index m + (l - 1)) mod mx\<rparr>,
                 tr @ rotated m l)
          \<and> l \<le> mx - a \<and> (a < mx \<longrightarrow> 0 < l)
          \<and> (\<forall>j. Suc j < l \<longrightarrow> \<not> succeeds (net (a + j)))
          \<and> (if 0 < l \<and> succeeds (net (a + (l - 1)))
             then fst (try_generate (net (a + (l - 1))) (replay net a m (l - 1) (slot m (l - 1)))) = Inr r
             else r = Failure ''All providers failed'' ''NONE'' \<and> l = mx - a)"
  using assms
proof (induction "mx - a" arbitrary: a m tr)
  case 0
  then have "\<not> a < mx" by simp
  then have "generate_loop net mx a m tr = Inr (Failure ''All providers failed'' ''NONE'', m, tr)"
    by (rule loop_done)
  moreover have "m\<lparr>store := replay net a m 0,
        current_provider_index := (current_provider_index m + (0 - 1)) mod mx\<rparr> = m"
    using 0 by (simp add: replay_0)
  moreover have "rotated m 0 = []" by (simp add: rotated_def)
  ultimately show ?case using 0
    by (intro exI[of _ "Failure ''All providers failed'' ''NONE''"] exI[of _ 0]) simp
next
  case (Suc d)
  let ?i = "current_provider_index m"
  let ?ad = "providers m ! ?i"
  have lt: "a < mx" and ne: "providers m \<noteq> []" and iv: "?i < length (providers m)"
    using Suc by auto
  have s0: "slot m 0 = ?ad" using iv by (rule slot_0)
  have one: "m\<lparr>store := replay net a m (Suc 0),
        current_provider_index := (?i + (Suc 0 - 1)) mod mx\<rparr>
      = put ?ad (after_attempt (net a) (store m ?ad)) m"
    using Suc.prems by (simp add: replay_1 s0 put_def)
  show ?case
  proof (cases "succeeds (net a)")
    case True
    from loop_success[where net=net and a=a and tr=tr, OF lt ne iv True] obtain r where
      r: "generate_loop net mx a m tr =
            Inr (r, put ?ad (after_attempt (net a) (store m ?ad)) m, tr @ [?i])"
      and t: "try_generate (net a) (store m ?ad) = (Inr r, after_attempt (net a) (store m ?ad))"
      by blast
    show ?thesis using r t True lt one rotated_1[OF iv] s0
      by (intro exI[of _ r] exI[of _ "Suc 0"]) (simp add: replay_0)
  next
    case False
    show ?thesis
    proof (cases "a < mx - 1")
      case last: False
      from loop_fail_last[where net=net and a=a and tr=tr, OF lt last ne iv False]
      have "generate_loop net mx a m tr =
          Inr (Failure ''All providers failed'' ''NONE'',
               put ?ad (after_attempt (net a) (store m ?ad)) m, tr @ [?i])" .
      moreover have "mx - a = Suc 0" using lt last by simp
      ultimately show ?thesis using False one rotated_1[OF iv]
        by (intro exI[of _ "Failure ''All providers failed'' ''NONE''"] exI[of _ "Suc 0"]) simp
    next
      case True
      let ?m2 = "step_fail net a m"
      have m2: "(put ?ad (after_attempt (net a) (store m ?ad)) m)
          \<lparr>current_provider_index := (?i + 1) mod length (providers m)\<rparr> = ?m2"
        by (simp add: step_fail_def put_def s0)
      have step: "generate_loop net mx a m tr = generate_loop net mx (Suc a) ?m2 (tr @ [?i])"
        using loop_fail_rotate[where net=net and a=a and tr=tr, OF True Suc.prems(1) iv False] m2 by simp
      have d: "d = mx - Suc a" using Suc.hyps(2) by simp
      have p1: "mx = length (providers ?m2)" using Suc.prems(1) by simp
      have p2: "current_provider_index ?m2 < mx" using Suc.prems(1) ne by simp
      have p3: "Suc a \<le> mx" using lt by simp
      from Suc.hyps(1)[OF d p1 p2 p3, of "tr @ [?i]"] obtain r l where
        run: "generate_loop net mx (Suc a) ?m2 (tr @ [?i]) =
            Inr (r, ?m2\<lparr>store := replay net (Suc a) ?m2 l,
                      current_provider_index := (current_provider_index ?m2 + (l - 1)) mod mx\<rparr>,
                 (tr @ [?i]) @ rotated ?m2 l)"
        and l1: "l \<le> mx - Suc a" and l2: "Suc a < mx \<longrightarrow> 0 < l"
        and l3: "\<forall>j. Suc j < l \<longrightarrow> \<not> succeeds (net (Suc a + j))"
        and l4: "if 0 < l \<and> succeeds (net (Suc a + (l - 1)))
             then fst (try_generate (net (Suc a + (l - 1)))
                        (replay net (Suc a) ?m2 (l - 1) (slot ?m2 (l - 1)))) = Inr r
             else r = Failure ''All providers failed'' ''NONE'' \<and> l = mx - Suc a"
        by blast
      have lpos: "0 < l" using l2 True by simp
      obtain l' where l': "l = Suc l'" using lpos by (cases l) auto
      have idx: "(current_provider_index ?m2 + (l - 1)) mod mx = (?i + (Suc l - 1)) mod mx"
        unfolding l' using Suc.prems(1) by (simp add: mod_add_left_eq)
      have fin: "?m2\<lparr>store := replay net (Suc a) ?m2 l,
                      current_provider_index := (current_provider_index ?m2 + (l - 1)) mod mx\<rparr>
          = m\<lparr>store := replay net a m (Suc l),
               current_provider_index := (?i + (Suc l - 1)) mod mx\<rparr>"
        unfolding idx by (simp add: replay_Suc step_fail_def)
      have tr: "(tr @ [?i]) @ rotated ?m2 l = tr @ rotated m (Suc l)"
        using iv by (simp add: rotated_Suc[of m l net a])
      have a1: "Suc l \<le> mx - a" using l1 lt True by simp
      have a3: "\<forall>j. Suc j < Suc l \<longrightarrow> \<not> succeeds (net (a + j))"
      proof (intro allI impI)
        fix j assume "Suc j < Suc l"
        show "\<not> succeeds (net (a + j))"
        proof (cases j)
          case 0 then show ?thesis using False by simp
        next
          case (Suc j') then show ?thesis using l3 \<open>Suc j < Suc l\<close> by simp
        qed
      qed
      have sl: "slot ?m2 (l - 1) = slot m l" using lpos by (simp add: slot_step_fail)
      have rp: "replay net (Suc a) ?m2 (l - 1) = replay net a m l"
        using lpos replay_Suc[of net a m "l - 1"] by simp
      have a4: "if 0 < Suc l \<and> succeeds (net (a + (Suc l - 1)))
             then fst (try_generate (net (a + (Suc l - 1)))
                        (replay net a m (Suc l - 1) (slot m (Suc l - 1)))) = Inr r
             else r = Failure ''All providers failed'' ''NONE'' \<and> Suc l = mx - a"
        using l4 lpos sl rp lt l1 by (auto split: if_splits)
      show ?thesis
        unfolding step run fin tr using a1 a3 a4
        by (intro exI[of _ r] exI[of _ "Suc l"]) simp
    qed
  qed
qed

section \<open>The store and the order of attempts in one call\<close>

lemma after_attempt_identity: "identity (after_attempt out p) = identity p"
  by (simp add: after_attempt_def try_generate_def identity_def Let_def
      split: outcome.splits sum.splits)

lemma try_generate_success:
  assumes "succeeds out"
  shows "\<exists>j c. json_of out = Inr j \<and> content_of j = Inr c \<and>
           try_generate out p =
             (Inr (Success (name p) (model p) c (elapsed_ms out)),
              p\<lparr>latency_ms := elapsed_ms out, healthy := True\<rparr>)"
  using assms
  by (auto simp: succeeds_def try_generate_def Let_def split: outcome.splits sum.splits)

lemma after_attempt_success:
  "succeeds out \<Longrightarrow> after_attempt out p = p\<lparr>latency_ms := elapsed_ms out, healthy := True\<rparr>"
  using try_generate_success[of out p] by (auto simp: after_attempt_def)

lemma after_attempt_failure:
  assumes "\<not> succeeds out"
  shows "\<exists>t. after_attempt out p =
           (if replied_200 out then p\<lparr>latency_ms := elapsed_ms out\<rparr> else p)
             \<lparr>healthy := False, last_error := Some t\<rparr>"
proof (cases out)
  case (Raised t)
  then show ?thesis
    by (auto simp: after_attempt_def try_generate_def replied_200_def)
next
  case (Reply st ms tx js)
  show ?thesis
  proof (cases "st = 200")
    case True
    show ?thesis
    proof (cases js)
      case (Inl t)
      then show ?thesis using Reply True
        by (auto simp: after_attempt_def try_generate_def replied_200_def)
    next
      case (Inr j)
      then obtain e where "content_of j = Inl e"
        using assms Reply True by (cases "content_of j") (simp_all add: succeeds_def)
      then show ?thesis using Reply True Inr
        by (auto simp: after_attempt_def try_generate_def replied_200_def)
    qed
  next
    case False
    then show ?thesis using Reply
      by (cases tx) (auto simp: after_attempt_def try_generate_def replied_200_def)
  qed
qed

lemma replay_frame: "(\<forall>j<l. slot m j \<noteq> b) \<Longrightarrow> replay net a m l b = store m b"
  by (induction l) (auto simp: replay_def)

lemma replay_Suc_right:
  "replay net a m (Suc l) =
     (replay net a m l)(slot m l := after_attempt (net (a + l)) (replay net a m l (slot m l)))"
  by (simp add: replay_def)

lemma replay_at:
  "inj_on (slot m) {..<l} \<Longrightarrow> j < l \<Longrightarrow>
     replay net a m l (slot m j) = after_attempt (net (a + j)) (store m (slot m j))"
proof (induction l)
  case 0
  then show ?case by simp
next
  case (Suc l)
  have inj: "inj_on (slot m) {..<l}"
    using Suc.prems(1) by (rule inj_on_subset) auto
  show ?case
  proof (cases "j = l")
    case True
    have "\<forall>k<l. slot m k \<noteq> slot m l"
      using Suc.prems(1) by (auto simp: inj_on_def)
    then have "replay net a m l (slot m l) = store m (slot m l)"
      by (rule replay_frame)
    then show ?thesis using True by (simp add: replay_Suc_right)
  next
    case False
    then have jl: "j < l" using Suc.prems(2) by simp
    have "slot m j \<noteq> slot m l"
      using Suc.prems(1) jl by (auto simp: inj_on_def)
    then show ?thesis using Suc.IH[OF inj jl] by (simp add: replay_Suc_right)
  qed
qed

lemma replay_identity: "identity (replay net a m l b) = identity (store m b)"
  by (induction l arbitrary: b) (simp_all add: replay_Suc_right replay_0 after_attempt_identity)

lemma mod_shift_le:
  fixes i n :: nat
  assumes "j \<le> k" "k < n" "(i + j) mod n = (i + k) mod n"
  shows "j = k"
proof -
  have "n dvd (i + k) - (i + j)"
    using mod_eq_dvd_iff_nat[of "i + j" "i + k" n] assms(1,3) by simp
  then have "n dvd k - j" by simp
  moreover have "k - j < n" using assms(2) by simp
  ultimately have "k - j = 0" using nat_dvd_not_less[of "k - j" n] by auto
  then show ?thesis using assms(1) by simp
qed

lemma mod_shift_inj:
  fixes i n :: nat
  assumes "j < n" "k < n" "(i + j) mod n = (i + k) mod n"
  shows "j = k"
proof (cases "j \<le> k")
  case True
  then show ?thesis using assms by (intro mod_shift_le[of j k n i])
next
  case False
  then have "k \<le> j" by simp
  then have "k = j" using assms by (intro mod_shift_le[of k j n i]) simp_all
  then show ?thesis by simp
qed

lemma slot_inj:
  assumes "distinct (providers m)" "l \<le> length (providers m)"
  shows "inj_on (slot m) {..<l}"
proof (rule inj_onI)
  fix j k assume j: "j \<in> {..<l}" and k: "k \<in> {..<l}" and eq: "slot m j = slot m k"
  let ?n = "length (providers m)"
  have n: "0 < ?n" using j assms(2) by auto
  have "(current_provider_index m + j) mod ?n = (current_provider_index m + k) mod ?n"
    using eq assms(1) n by (simp add: slot_def nth_eq_iff_index_eq)
  then show "j = k" using j k assms(2) by (intro mod_shift_inj[of j ?n k]) auto
qed

lemma length_rotated: "length (rotated m l) = l"
  by (simp add: rotated_def)

lemma nth_rotated:
  "j < l \<Longrightarrow> rotated m l ! j = (current_provider_index m + j) mod length (providers m)"
  by (simp add: rotated_def)

lemma distinct_rotated:
  assumes "l \<le> length (providers m)"
  shows "distinct (rotated m l)"
proof -
  let ?n = "length (providers m)"
  have "inj_on (\<lambda>j. (current_provider_index m + j) mod ?n) (set [0..<l])"
  proof (rule inj_onI)
    fix j k assume "j \<in> set [0..<l]" "k \<in> set [0..<l]"
      and eq: "(current_provider_index m + j) mod ?n = (current_provider_index m + k) mod ?n"
    then have "j < ?n" "k < ?n" using assms by simp_all
    then show "j = k" using eq by (rule mod_shift_inj)
  qed
  then show ?thesis by (simp add: rotated_def distinct_map)
qed

lemma generate_run:
  assumes "providers m \<noteq> []" "current_provider_index m < length (providers m)"
  shows "\<exists>r l. generate m net =
            Inr (r, m\<lparr>store := replay net 0 m l,
                      current_provider_index :=
                        (current_provider_index m + (l - 1)) mod length (providers m)\<rparr>,
                 rotated m l)
          \<and> 0 < l \<and> l \<le> length (providers m)
          \<and> (\<forall>j. Suc j < l \<longrightarrow> \<not> succeeds (net j))
          \<and> (if succeeds (net (l - 1))
             then fst (try_generate (net (l - 1)) (replay net 0 m (l - 1) (slot m (l - 1)))) = Inr r
             else r = Failure ''All providers failed'' ''NONE'' \<and> l = length (providers m))"
proof -
  let ?n = "length (providers m)"
  have pos: "0 < ?n" using assms(1) by simp
  from loop_run[where net=net and tr="[]" and a=0 and mx="?n" and m=m, OF refl assms(2)]
  obtain r l where
    run: "generate_loop net ?n 0 m [] =
            Inr (r, m\<lparr>store := replay net 0 m l,
                      current_provider_index := (current_provider_index m + (l - 1)) mod ?n\<rparr>,
                 [] @ rotated m l)"
    and l1: "l \<le> ?n - 0" and l2: "0 < ?n \<longrightarrow> 0 < l"
    and l3: "\<forall>j. Suc j < l \<longrightarrow> \<not> succeeds (net (0 + j))"
    and l4: "if 0 < l \<and> succeeds (net (0 + (l - 1)))
             then fst (try_generate (net (0 + (l - 1)))
                        (replay net 0 m (l - 1) (slot m (l - 1)))) = Inr r
             else r = Failure ''All providers failed'' ''NONE'' \<and> l = ?n - 0"
    by blast
  have lpos: "0 < l" using l2 pos by simp
  have g: "generate m net = generate_loop net ?n 0 m []"
    using assms(1) by (simp add: generate_def)
  have c4: "if succeeds (net (l - 1))
             then fst (try_generate (net (l - 1)) (replay net 0 m (l - 1) (slot m (l - 1)))) = Inr r
             else r = Failure ''All providers failed'' ''NONE'' \<and> l = ?n"
    using l4 lpos by (simp split: if_splits)
  show ?thesis
    unfolding g run using lpos l1 l3 c4
    by (intro exI[of _ r] exI[of _ l]) simp
qed

section \<open>Construction and the states a run passes through\<close>

lemma new_manager_providers:
  "providers (new_manager cfg h) =
     (if LOCAL_LLM_API_BASE cfg \<noteq> [] \<and> OPENAI_API_KEY cfg \<noteq> None \<and> OPENAI_API_KEY cfg \<noteq> Some []
      then [0, 1]
      else if LOCAL_LLM_API_BASE cfg \<noteq> [] \<or> (OPENAI_API_KEY cfg \<noteq> None \<and> OPENAI_API_KEY cfg \<noteq> Some [])
      then [0] else [])"
  by (simp add: new_manager_def setup_providers_def append_provider_def Let_def)

lemma new_manager_fields:
  "current_provider_index (new_manager cfg h) = 0" "config (new_manager cfg h) = cfg"
  by (simp_all add: new_manager_def setup_providers_def append_provider_def Let_def)

lemma new_manager_distinct: "distinct (providers (new_manager cfg h))"
  by (simp add: new_manager_providers)

lemma new_manager_index_ok: "index_ok (new_manager cfg h)"
  by (simp add: index_ok_def new_manager_providers new_manager_fields)

lemma switch_result:
  assumes "index_ok m"
  shows "switch_to_next_provider m =
     Inr (if length (providers m) \<le> 1 then m
          else m\<lparr>current_provider_index :=
                   (current_provider_index m + 1) mod length (providers m)\<rparr>)"
  using assms
  by (auto simp: switch_to_next_provider_def current_provider_def index_ok_def Let_def)

lemma health_check_result:
  assumes "provider = None \<longrightarrow> index_ok m"
  shows "\<exists>b m'. health_check m provider out = Inr (b, m') \<and>
     (m' = m \<or> (\<exists>a p. m' = put a p m \<and> identity p = identity (store m a)))"
proof (cases "case provider of Some a \<Rightarrow> Inr (Some a) | None \<Rightarrow> current_provider m")
  case (Inl e)
  then show ?thesis using assms
    by (auto simp: current_provider_def index_ok_def split: option.splits if_splits)
next
  case (Inr t)
  show ?thesis
  proof (cases t)
    case None
    then show ?thesis using Inr by (auto simp: health_check_def)
  next
    case (Some a)
    show ?thesis
    proof (cases out)
      case (Raised x)
      have "identity (store m a\<lparr>healthy := False, last_error := Some x\<rparr>) = identity (store m a)"
        by (simp add: identity_def)
      then show ?thesis using Inr Some Raised by (auto simp: health_check_def)
    next
      case (Reply st ms tx js)
      let ?p = "if st = 200 then (store m a)\<lparr>latency_ms := ms, healthy := True\<rparr>
                else (store m a)\<lparr>latency_ms := ms, healthy := False,
                                 last_error := Some (''HTTP '' @ str_nat st)\<rparr>"
      have "health_check m provider out = Inr (st = 200, put a ?p m)"
        using Inr Some Reply by (simp add: health_check_def Let_def)
      moreover have "identity ?p = identity (store m a)"
        by (simp add: identity_def)
      ultimately show ?thesis by blast
    qed
  qed
qed

lemma generate_result:
  assumes "index_ok m"
  shows "\<exists>r st i tr. generate m net = Inr (r, m\<lparr>store := st, current_provider_index := i\<rparr>, tr)
      \<and> (providers m = [] \<or> i < length (providers m))
      \<and> (\<forall>b. identity (st b) = identity (store m b))"
proof (cases "providers m = []")
  case True
  then have "generate m net =
      Inr (Failure ''No LLM providers configured'' ''NONE'',
           m\<lparr>store := store m, current_provider_index := current_provider_index m\<rparr>, [])"
    by (simp add: generate_def)
  then show ?thesis using True by blast
next
  case False
  then have iv: "current_provider_index m < length (providers m)"
    using assms by (simp add: index_ok_def)
  from generate_run[OF False iv, of net] obtain r l where
    "generate m net =
       Inr (r, m\<lparr>store := replay net 0 m l,
                 current_provider_index :=
                   (current_provider_index m + (l - 1)) mod length (providers m)\<rparr>,
            rotated m l)"
    by blast
  moreover have "(current_provider_index m + (l - 1)) mod length (providers m) < length (providers m)"
    using False by simp
  ultimately show ?thesis using replay_identity by blast
qed

lemma reachable_invariant:
  assumes "reachable m0 m" "index_ok m0"
  shows "index_ok m \<and> same_registry m0 m"
  using assms
proof (induction rule: reachable.induct)
  case start
  then show ?case by (simp add: same_registry_def)
next
  case (rotate m m')
  then have ok: "index_ok m" and sr: "same_registry m0 m" by simp_all
  from rotate.hyps(2) switch_result[OF ok]
  have "m' = m \<or> (1 < length (providers m) \<and>
      m' = m\<lparr>current_provider_index := (current_provider_index m + 1) mod length (providers m)\<rparr>)"
    by (auto split: if_splits)
  moreover have "1 < length (providers m) \<longrightarrow>
      (current_provider_index m + 1) mod length (providers m) < length (providers m)"
    by (auto intro: mod_less_divisor)
  ultimately show ?case using ok sr by (auto simp: index_ok_def same_registry_def)
next
  case (gen m net r m' tr)
  then have ok: "index_ok m" and sr: "same_registry m0 m" by simp_all
  from generate_result[OF ok, of net] gen.hyps(2) obtain st i where
    "m' = m\<lparr>store := st, current_provider_index := i\<rparr>"
    "providers m = [] \<or> i < length (providers m)"
    "\<forall>b. identity (st b) = identity (store m b)"
    by auto
  then show ?case using sr by (auto simp: index_ok_def same_registry_def)
next
  case (check m provider out b m')
  then have ok: "index_ok m" and sr: "same_registry m0 m" by simp_all
  from health_check_result[of provider m out] ok check.hyps(2)
  have "m' = m \<or> (\<exists>a p. m' = put a p m \<and> identity p = identity (store m a))"
    by auto
  then show ?case using ok sr by (auto simp: index_ok_def same_registry_def put_def)
qed

section \<open>The copy under \<open>clawdbot/\<close> against \<open>bot.py\<close>\<close>

text \<open>
  A manager built by the copy has a provider and its index within the list. On such
  states the operations of the copy do what those of \<open>bot.py\<close> do, with one
  difference in \<open>generate\<close>: a status other than 200 is recorded with the status alone
  as its text, which is what \<open>pkg_view\<close> expresses. The properties proved below of
  \<open>generate\<close> for every answer of the network therefore hold of the copy as well.
\<close>

lemma try_generate_pkg_view: "try_generate_pkg out p = try_generate (pkg_view out) p"
  by (cases out) (simp_all add: try_generate_pkg_def try_generate_def pkg_view_def)

lemma succeeds_pkg_view: "succeeds (pkg_view out) = succeeds out"
  by (cases out) (simp_all add: succeeds_def pkg_view_def)

lemma new_manager_pkg_index:
  "providers (new_manager_pkg cfg h) \<noteq> [] \<and>
   current_provider_index (new_manager_pkg cfg h) < length (providers (new_manager_pkg cfg h)) \<and>
   distinct (providers (new_manager_pkg cfg h))"
  by (simp add: new_manager_pkg_def setup_providers_pkg_def append_provider_def Let_def)

lemma switch_pkg_agrees:
  assumes "current_provider_index m < length (providers m)"
  shows "map_sum id snd (switch_to_next_provider_pkg m) = switch_to_next_provider m"
proof (cases "length (providers m) \<le> 1")
  case True
  then have "length (providers m) = 1" "current_provider_index m = 0" using assms by simp_all
  then show ?thesis
    by (simp add: switch_to_next_provider_pkg_def switch_to_next_provider_def
        current_provider_pkg_def Let_def)
next
  case False
  moreover have "providers m \<noteq> []" using assms by auto
  ultimately show ?thesis using assms
    by (simp add: switch_to_next_provider_pkg_def switch_to_next_provider_def
        current_provider_pkg_def current_provider_def Let_def)
qed

lemma health_check_pkg_agrees:
  assumes "provider \<noteq> None \<or> current_provider_index m < length (providers m)"
  shows "health_check_pkg m provider out = health_check m provider out"
proof (cases provider)
  case None
  then have "current_provider_index m < length (providers m)" using assms by simp
  then show ?thesis using None
    by (auto simp: health_check_pkg_def health_check_def current_provider_pkg_def
        current_provider_def)
next
  case (Some a)
  then show ?thesis
    by (simp add: health_check_pkg_def health_check_def)
qed

lemma generate_loop_pkg_agrees:
  assumes "mx = length (providers m)" "current_provider_index m < length (providers m)"
  shows "generate_loop_pkg net mx a m tr = generate_loop (\<lambda>k. pkg_view (net k)) mx a m tr"
  using assms
proof (induction "mx - a" arbitrary: a m tr)
  case 0
  then have "\<not> a < mx" by simp
  then show ?case
    by (subst generate_loop_pkg.simps, subst generate_loop.simps) simp
next
  case (Suc d)
  let ?i = "current_provider_index m"
  let ?ad = "providers m ! ?i"
  let ?net = "\<lambda>k. pkg_view (net k)"
  have lt: "a < mx" using Suc.hyps(2) by simp
  have iv: "?i < length (providers m)" and ne: "providers m \<noteq> []" using Suc.prems by auto
  have d: "d = mx - Suc a" using Suc.hyps(2) by simp
  obtain res p where tg: "try_generate (pkg_view (net a)) (store m ?ad) = (res, p)"
    by (cases "try_generate (pkg_view (net a)) (store m ?ad)")
  show ?case
  proof (cases res)
    case (Inr r)
    show ?thesis
      using lt iv ne tg Inr
      by (subst generate_loop_pkg.simps, subst generate_loop.simps)
         (simp add: current_provider_pkg_def current_provider_def try_generate_pkg_view)
  next
    case (Inl t)
    let ?m1 = "put ?ad (p\<lparr>healthy := False, last_error := Some t\<rparr>) m"
    have m1: "mx = length (providers ?m1)" "current_provider_index ?m1 < length (providers ?m1)"
      using Suc.prems by (simp_all add: put_def)
    show ?thesis
    proof (cases "a < mx - 1")
      case False
      have L: "generate_loop_pkg net mx a m tr =
          generate_loop_pkg net mx (Suc a) ?m1 (tr @ [?i])"
        using lt iv tg Inl False
        by (subst generate_loop_pkg.simps)
           (simp add: current_provider_pkg_def try_generate_pkg_view)
      have R: "generate_loop ?net mx a m tr = generate_loop ?net mx (Suc a) ?m1 (tr @ [?i])"
        using lt iv ne tg Inl False
        by (subst generate_loop.simps) (simp add: current_provider_def)
      show ?thesis unfolding L R using Suc.hyps(1)[OF d m1] .
    next
      case True
      let ?m2 = "?m1\<lparr>current_provider_index := (?i + 1) mod length (providers m)\<rparr>"
      have n2: "1 < length (providers m)" using True Suc.prems(1) by simp
      have s1: "switch_to_next_provider ?m1 = Inr ?m2"
        using n2 iv ne by (simp add: switch_to_next_provider_def current_provider_def put_def Let_def)
      have s2: "\<exists>names. switch_to_next_provider_pkg ?m1 = Inr (names, ?m2)"
        using n2 iv ne by (simp add: switch_to_next_provider_pkg_def current_provider_pkg_def put_def Let_def)
      then obtain names where s2': "switch_to_next_provider_pkg ?m1 = Inr (names, ?m2)" ..
      have m2: "mx = length (providers ?m2)" "current_provider_index ?m2 < length (providers ?m2)"
        using Suc.prems(1) ne by (simp_all add: put_def)
      have L: "generate_loop_pkg net mx a m tr =
          generate_loop_pkg net mx (Suc a) ?m2 (tr @ [?i])"
        using lt iv tg Inl True s2'
        by (subst generate_loop_pkg.simps)
           (simp add: current_provider_pkg_def try_generate_pkg_view)
      have R: "generate_loop ?net mx a m tr = generate_loop ?net mx (Suc a) ?m2 (tr @ [?i])"
        using lt iv ne tg Inl True s1
        by (subst generate_loop.simps) (simp add: current_provider_def)
      show ?thesis unfolding L R using Suc.hyps(1)[OF d m2] .
    qed
  qed
qed

lemma generate_pkg_agrees:
  assumes "providers m \<noteq> []" "current_provider_index m < length (providers m)"
  shows "generate_pkg m net = generate m (\<lambda>k. pkg_view (net k))"
  using assms generate_loop_pkg_agrees[OF refl assms(2)]
  by (simp add: generate_pkg_def generate_def)

section \<open>The probe, the result of a call, and the samples\<close>

lemma content_of_chat_body: "content_of (chat_body s) = Inr (JStr s)"
  by (simp add: content_of_def chat_body_def)

lemma succeeds_ok_reply: "succeeds (ok_reply ms s)"
  by (simp add: succeeds_def ok_reply_def content_of_chat_body)


lemma health_check_effect:
  assumes "provider = None \<longrightarrow> index_ok m"
  shows "health_check m provider out =
     Inr (case probe_target m provider of
            None \<Rightarrow> (False, m)
          | Some a \<Rightarrow> (probe_result out, put a (after_probe out (store m a)) m))"
proof (cases "probe_target m provider")
  case None
  then have "provider = None" "providers m = []"
    by (auto simp: probe_target_def split: option.splits if_splits)
  then show ?thesis using None
    by (simp add: health_check_def current_provider_def)
next
  case (Some a)
  then have cp: "(case provider of Some a \<Rightarrow> Inr (Some a) | None \<Rightarrow> current_provider m) = Inr (Some a)"
    using assms
    by (auto simp: probe_target_def current_provider_def index_ok_def split: option.splits if_splits)
  show ?thesis
  proof (cases out)
    case (Raised t)
    then show ?thesis using Some cp
      by (simp add: health_check_def after_probe_def probe_result_def)
  next
    case (Reply st ms tx js)
    then show ?thesis using Some cp
      by (simp add: health_check_def Let_def after_probe_def probe_result_def)
  qed
qed

lemma after_probe_reply:
  "latency_ms (after_probe (Reply st ms tx js) p) = ms"
  "healthy (after_probe (Reply st ms tx js) p) = (st = 200)"
  "st \<noteq> 200 \<Longrightarrow> last_error (after_probe (Reply st ms tx js) p) = Some (''HTTP '' @ str_nat st)"
  "st = 200 \<Longrightarrow> last_error (after_probe (Reply st ms tx js) p) = last_error p"
  by (simp_all add: after_probe_def)

lemma after_probe_raised:
  "latency_ms (after_probe (Raised t) p) = latency_ms p"
  "healthy (after_probe (Raised t) p) = False"
  "last_error (after_probe (Raised t) p) = Some t"
  by (simp_all add: after_probe_def)

lemma store_put: "store (put a p m) a = p"
  by (simp add: put_def)


lemma reachable_total:
  assumes "index_ok m"
  shows "(\<exists>m'. switch_to_next_provider m = Inr m') \<and>
         (\<forall>net. \<exists>r m' tr. generate m net = Inr (r, m', tr)) \<and>
         (\<forall>provider out. \<exists>b m'. health_check m provider out = Inr (b, m'))"
proof (intro conjI allI)
  show "\<exists>m'. switch_to_next_provider m = Inr m'"
    using switch_result[OF assms] by (rule exI)
next
  fix net
  from generate_result[OF assms, of net] obtain r st i tr where
    "generate m net = Inr (r, m\<lparr>store := st, current_provider_index := i\<rparr>, tr)"
    by (elim exE conjE)
  then show "\<exists>r m' tr. generate m net = Inr (r, m', tr)"
    by (intro exI)
next
  fix provider out
  have "health_check m provider out =
     Inr (case probe_target m provider of
            None \<Rightarrow> (False, m)
          | Some a \<Rightarrow> (probe_result out, put a (after_probe out (store m a)) m))"
    using assms by (intro health_check_effect) simp
  then show "\<exists>b m'. health_check m provider out = Inr (b, m')"
    by (cases "probe_target m provider") auto
qed

lemma example_generate:
  "generate (new_manager cfg_both blank_store) down_then_up =
     Inr (Success ''OPENAI'' ''gpt-4o-mini'' (JStr ''hi'') 120,
          after_generate (new_manager cfg_both blank_store) down_then_up, [0, 1])"
  by (simp add: after_generate_def generate_def generate_loop.simps new_manager_def
      setup_providers_def append_provider_def cfg_both_def Let_def current_provider_def
      try_generate_def down_then_up_def ok_reply_def content_of_chat_body put_def
      switch_to_next_provider_def LLMProvider_def)

lemma example_generate_index:
  "current_provider_index (after_generate (new_manager cfg_both blank_store) down_then_up) = 1"
  by (simp add: after_generate_def generate_def generate_loop.simps new_manager_def
      setup_providers_def append_provider_def cfg_both_def Let_def current_provider_def
      try_generate_def down_then_up_def ok_reply_def content_of_chat_body put_def
      switch_to_next_provider_def LLMProvider_def)

lemma hd_rotated:
  "0 < l \<Longrightarrow> current_provider_index m < length (providers m) \<Longrightarrow>
     hd (rotated m l) = current_provider_index m"
  by (simp add: rotated_def hd_map upt_conv_Cons)

lemma last_rotated:
  "0 < l \<Longrightarrow> last (rotated m l) = (current_provider_index m + (l - 1)) mod length (providers m)"
  by (cases l) (simp_all add: rotated_def last_map)

lemma rotated_bound:
  "providers m \<noteq> [] \<Longrightarrow> k \<in> set (rotated m l) \<Longrightarrow> k < length (providers m)"
  by (auto simp: rotated_def)

lemma rotated_objects_distinct:
  assumes "distinct (providers m)" "l \<le> length (providers m)" "providers m \<noteq> []"
  shows "distinct (map ((!) (providers m)) (rotated m l))"
proof -
  have "inj_on ((!) (providers m)) (set (rotated m l))"
    using assms(1) rotated_bound[OF assms(3)]
    by (intro inj_onI) (simp add: nth_eq_iff_index_eq)
  then show ?thesis using distinct_rotated[OF assms(2)] by (simp add: distinct_map)
qed

lemma success_shape:
  assumes "succeeds out" "fst (try_generate out p) = Inr r"
  shows "\<exists>c. r = Success (name p) (model p) c (elapsed_ms out) \<and>
              (\<exists>j. json_of out = Inr j \<and> content_of j = Inr c)"
proof -
  from try_generate_success[OF assms(1), of p] obtain j c where
    "json_of out = Inr j" "content_of j = Inr c"
    "try_generate out p =
       (Inr (Success (name p) (model p) c (elapsed_ms out)),
        p\<lparr>latency_ms := elapsed_ms out, healthy := True\<rparr>)"
    by (elim exE conjE)
  then show ?thesis using assms(2) by auto
qed

lemma sample_both:
  "providers (new_manager cfg_both blank_store) = [0, 1]"
  "current_provider_index (new_manager cfg_both blank_store) = 0"
  by (simp_all add: new_manager_providers new_manager_fields cfg_both_def)

lemma not_succeeds_raised: "\<not> succeeds (Raised t)"
  by (simp add: succeeds_def)

lemma rotated_both_2:
  "rotated (new_manager cfg_both blank_store) (length (providers (new_manager cfg_both blank_store)))
     = [0, 1]"
  by (simp add: rotated_def sample_both)

lemma health_check_Inr:
  assumes "health_check m provider out = Inr (b, m')"
  shows "(b, m') = (case probe_target m provider of
            None \<Rightarrow> (False, m)
          | Some a \<Rightarrow> (probe_result out, put a (after_probe out (store m a)) m))"
proof (cases "provider = None \<longrightarrow> index_ok m")
  case True
  from health_check_effect[OF True, of out] assms show ?thesis by simp
next
  case False
  then have "health_check m provider out = Inl (IndexError ''list index out of range'')"
    by (simp add: health_check_def current_provider_def index_ok_def)
  then show ?thesis using assms by simp
qed

lemma served_slot:
  assumes "0 < l" "current_provider_index m < length (providers m)"
  shows "slot m (l - 1) = providers m ! last (rotated m l)"
  using assms by (simp add: slot_def last_rotated)

lemma replay_last:
  "0 < l \<Longrightarrow> replay net a m l (slot m (l - 1)) =
     after_attempt (net (a + (l - 1))) (replay net a m (l - 1) (slot m (l - 1)))"
  by (cases l) (simp_all add: replay_Suc_right)

lemma empty_answer_run:
  "generate (new_manager cfg_local blank_store) empty_answer =
     Inr (Success ''LOCAL'' ''default'' (JStr []) 80,
          after_generate (new_manager cfg_local blank_store) empty_answer, [0])"
  by (simp add: after_generate_def generate_def generate_loop.simps new_manager_def
      setup_providers_def append_provider_def cfg_local_def Let_def current_provider_def
      try_generate_def empty_answer_def ok_reply_def content_of_chat_body put_def LLMProvider_def)

lemma local_failed_eq:
  "local_failed =
     \<lparr>config = cfg_local,
      store = blank_store(0 := (LLMProvider ''LOCAL'' ''http://127.0.0.1:8000/v1'' ''default'' None 60)
                 \<lparr>healthy := False, last_error := Some ''timeout''\<rparr>),
      providers = [0], current_provider_index = 0\<rparr>"
  by (simp add: local_failed_def after_health_check_def health_check_def current_provider_def
      new_manager_def setup_providers_def append_provider_def cfg_local_def Let_def put_def)

lemma local_failed_probe:
  "health_check local_failed None (ok_reply 80 ''OK'') =
     Inr (True, after_health_check local_failed None (ok_reply 80 ''OK''))"
  "last_error (store (after_health_check local_failed None (ok_reply 80 ''OK'')) 0) = Some ''timeout''"
  by (simp_all add: local_failed_eq after_health_check_def health_check_def current_provider_def
      ok_reply_def Let_def put_def LLMProvider_def)

lemma local_failed_generate:
  "generate local_failed always_ok =
     Inr (Success ''LOCAL'' ''default'' (JStr ''OK'') 80, after_generate local_failed always_ok, [0])"
  "last_error (store (after_generate local_failed always_ok) 0) = Some ''timeout''"
  by (simp_all add: local_failed_eq after_generate_def generate_def generate_loop.simps
      current_provider_def try_generate_def always_ok_def ok_reply_def content_of_chat_body
      Let_def put_def LLMProvider_def)

lemma local_failed_fields:
  "providers local_failed = [0]" "current_provider_index local_failed = 0"
  by (simp_all add: local_failed_eq)

lemma garbled_run:
  "generate (new_manager cfg_local blank_store) garbled =
     Inr (Failure ''All providers failed'' ''NONE'',
          after_generate (new_manager cfg_local blank_store) garbled, [0])"
  "latency_ms (store (after_generate (new_manager cfg_local blank_store) garbled) 0) = 5"
  "latency_ms (store (new_manager cfg_local blank_store) 0) = 0"
  by (simp_all add: after_generate_def generate_def generate_loop.simps new_manager_def
      setup_providers_def append_provider_def cfg_local_def Let_def current_provider_def
      try_generate_def garbled_def content_of_def put_def LLMProvider_def)

lemma garbled_fails: "\<not> succeeds (garbled k)" "replied_200 (garbled k)"
  by (simp_all add: succeeds_def replied_200_def garbled_def content_of_def)

lemma after_attempt_keeps_error:
  assumes "last_error p \<noteq> None"
  shows "last_error (after_attempt out p) \<noteq> None"
proof (cases "succeeds out")
  case True
  then show ?thesis using assms by (simp add: after_attempt_success)
next
  case False
  from after_attempt_failure[OF False, of p] obtain t where
    "after_attempt out p =
       (if replied_200 out then p\<lparr>latency_ms := elapsed_ms out\<rparr> else p)
         \<lparr>healthy := False, last_error := Some t\<rparr>"
    by (elim exE)
  then show ?thesis by simp
qed

lemma replay_keeps_error:
  "last_error (store m b) \<noteq> None \<Longrightarrow> last_error (replay net a m l b) \<noteq> None"
proof (induction l arbitrary: b)
  case 0
  then show ?case by (simp add: replay_0)
next
  case (Suc l)
  show ?case
  proof (cases "b = slot m l")
    case True
    have "last_error (replay net a m l (slot m l)) \<noteq> None"
      using Suc.prems True by (intro Suc.IH) simp
    then have "last_error (after_attempt (net (a + l)) (replay net a m l (slot m l))) \<noteq> None"
      by (rule after_attempt_keeps_error)
    then show ?thesis using True by (simp add: replay_Suc_right)
  next
    case False
    then show ?thesis using Suc.IH[OF Suc.prems] by (simp add: replay_Suc_right)
  qed
qed

lemma after_probe_keeps_error:
  "last_error p \<noteq> None \<Longrightarrow> last_error (after_probe out p) \<noteq> None"
  by (cases out) (simp_all add: after_probe_def)

lemma health_check_True_target:
  assumes "health_check m provider out = Inr (True, m')"
  shows "\<exists>a ms. probe_target m provider = Some a \<and>
           m' = put a ((store m a)\<lparr>latency_ms := ms, healthy := True\<rparr>) m"
proof -
  note e = health_check_Inr[OF assms]
  show ?thesis
  proof (cases "probe_target m provider")
    case None
    then show ?thesis using e by simp
  next
    case (Some a)
    then have pr: "probe_result out" and m': "m' = put a (after_probe out (store m a)) m"
      using e by simp_all
    from pr obtain ms tx js where "out = Reply 200 ms tx js"
      by (cases out) (simp_all add: probe_result_def)
    then have "after_probe out (store m a) = (store m a)\<lparr>latency_ms := ms, healthy := True\<rparr>"
      by (simp add: after_probe_def)
    then have "m' = put a ((store m a)\<lparr>latency_ms := ms, healthy := True\<rparr>) m"
      using m' by simp
    then show ?thesis using Some by (intro exI conjI)
  qed
qed

lemma generate_Inr_index_ok:
  assumes "generate m net = Inr x"
  shows "index_ok m"
proof (rule ccontr)
  assume "\<not> index_ok m"
  then have ne: "providers m \<noteq> []" and bad: "\<not> current_provider_index m < length (providers m)"
    by (simp_all add: index_ok_def)
  have "generate_loop net (length (providers m)) 0 m [] = Inl (IndexError ''list index out of range'')"
    using ne bad by (subst generate_loop.simps) (simp add: current_provider_def)
  then show False using assms ne by (simp add: generate_def)
qed

lemma switch_store:
  assumes "switch_to_next_provider m = Inr m'"
  shows "store m' = store m \<and> providers m' = providers m"
proof (cases "length (providers m) \<le> 1")
  case True
  then show ?thesis using assms by (simp add: switch_to_next_provider_def)
next
  case False
  show ?thesis
  proof (cases "current_provider_index m < length (providers m)")
    case True
    then have "index_ok m" by (simp add: index_ok_def)
    from switch_result[OF this] assms False show ?thesis by auto
  next
    case bad: False
    then have "switch_to_next_provider m = Inl (IndexError ''list index out of range'')"
      using False by (auto simp: switch_to_next_provider_def current_provider_def)
    then show ?thesis using assms by simp
  qed
qed

section \<open>The claims\<close>

subsection \<open>C1\<close>

text \<open>
  C1. With a list that is not empty and the index within it, \<open>generate\<close> returns, and
  the indices it has tried, in order, are the first ones of the rotation that starts at
  the index the call found: one attempt each, at least one and at most as many as there
  are providers, no index twice (and no provider object twice, the objects of the list
  being distinct). Every attempt before the last one tried failed, a call that tried fewer
  than all providers ended on a success, and the result is a success exactly when the
  last attempt tried succeeded. When the first attempt succeeds it is the only one: the
  index is unchanged and no other provider object is written.
\<close>

theorem generate_attempt_order:
  assumes "providers m \<noteq> []" and "current_provider_index m < length (providers m)"
  shows "\<exists>r m' tr. generate m net = Inr (r, m', tr) \<and>
     tr = rotated m (length tr) \<and>
     0 < length tr \<and> length tr \<le> length (providers m) \<and>
     distinct tr \<and>
     (distinct (providers m) \<longrightarrow> distinct (map ((!) (providers m)) tr)) \<and>
     (\<forall>j. Suc j < length tr \<longrightarrow> \<not> succeeds (net j)) \<and>
     (length tr < length (providers m) \<longrightarrow> succeeds (net (length tr - 1))) \<and>
     (succeeds (net (length tr - 1)) \<longleftrightarrow> (\<exists>pn mo c ms. r = Success pn mo c ms)) \<and>
     (succeeds (net 0) \<longrightarrow>
        tr = [current_provider_index m] \<and>
        current_provider_index m' = current_provider_index m \<and>
        (\<forall>b. b \<noteq> providers m ! current_provider_index m \<longrightarrow> store m' b = store m b))"
proof -
  let ?n = "length (providers m)"
  let ?i = "current_provider_index m"
  from generate_run[OF assms, of net] obtain r l where
    g: "generate m net =
          Inr (r, m\<lparr>store := replay net 0 m l,
                    current_provider_index := (?i + (l - 1)) mod ?n\<rparr>,
               rotated m l)"
    and lpos: "0 < l" and lle: "l \<le> ?n"
    and fails: "\<forall>j. Suc j < l \<longrightarrow> \<not> succeeds (net j)"
    and res: "if succeeds (net (l - 1))
             then fst (try_generate (net (l - 1)) (replay net 0 m (l - 1) (slot m (l - 1)))) = Inr r
             else r = Failure ''All providers failed'' ''NONE'' \<and> l = ?n"
    by (elim exE conjE)
  let ?m' = "m\<lparr>store := replay net 0 m l, current_provider_index := (?i + (l - 1)) mod ?n\<rparr>"
  let ?tr = "rotated m l"
  have len: "length ?tr = l" by (rule length_rotated)
  have c1: "?tr = rotated m (length ?tr)" by (simp add: len)
  have c2: "0 < length ?tr \<and> length ?tr \<le> ?n" using lpos lle by (simp add: len)
  have c3: "distinct ?tr" using lle by (rule distinct_rotated)
  have c4: "distinct (providers m) \<longrightarrow> distinct (map ((!) (providers m)) ?tr)"
    using rotated_objects_distinct[OF _ lle assms(1)] by simp
  have c5: "\<forall>j. Suc j < length ?tr \<longrightarrow> \<not> succeeds (net j)"
    using fails by (simp add: len)
  have c6: "length ?tr < ?n \<longrightarrow> succeeds (net (length ?tr - 1))"
    using res by (auto simp: len split: if_splits)
  have c7: "succeeds (net (length ?tr - 1)) \<longleftrightarrow> (\<exists>pn mo c ms. r = Success pn mo c ms)"
  proof (cases "succeeds (net (l - 1))")
    case True
    then have "fst (try_generate (net (l - 1)) (replay net 0 m (l - 1) (slot m (l - 1)))) = Inr r"
      using res by simp
    from success_shape[OF True this] show ?thesis using True by (auto simp: len)
  next
    case False
    then have "r = Failure ''All providers failed'' ''NONE''" using res by simp
    then show ?thesis using False by (simp add: len)
  qed
  have c8: "succeeds (net 0) \<longrightarrow>
        ?tr = [?i] \<and> current_provider_index ?m' = ?i \<and>
        (\<forall>b. b \<noteq> providers m ! ?i \<longrightarrow> store ?m' b = store m b)"
  proof
    assume s0: "succeeds (net 0)"
    have "\<not> Suc 0 < l" using fails s0 by blast
    then have l1: "l = Suc 0" using lpos by simp
    show "?tr = [?i] \<and> current_provider_index ?m' = ?i \<and>
        (\<forall>b. b \<noteq> providers m ! ?i \<longrightarrow> store ?m' b = store m b)"
      using assms(2) by (simp add: l1 rotated_1 replay_1 slot_0)
  qed
  show ?thesis
    unfolding g using c1 c2 c3 c4 c5 c6 c7 c8
    by (intro exI[of _ r] exI[of _ ?m'] exI[of _ ?tr] conjI refl) (elim conjE, assumption)+
qed


theorem generate_attempt_order_witness:
  "providers (new_manager cfg_both blank_store) \<noteq> [] \<and>
   current_provider_index (new_manager cfg_both blank_store)
     < length (providers (new_manager cfg_both blank_store)) \<and>
   (\<exists>r m' tr. generate (new_manager cfg_both blank_store) down_then_up = Inr (r, m', tr) \<and>
      tr = [0, 1] \<and> distinct tr \<and> \<not> succeeds (down_then_up 0) \<and>
      succeeds (down_then_up (length tr - 1)) \<and>
      r = Success ''OPENAI'' ''gpt-4o-mini'' (JStr ''hi'') 120)"
proof -
  let ?m = "new_manager cfg_both blank_store"
  have h1: "providers ?m \<noteq> []" and h2: "current_provider_index ?m < length (providers ?m)"
    by (simp_all add: sample_both)
  from generate_attempt_order[OF h1 h2, of down_then_up] obtain r m' tr where
    g: "generate ?m down_then_up = Inr (r, m', tr)" and d: "distinct tr"
    and f: "\<forall>j. Suc j < length tr \<longrightarrow> \<not> succeeds (down_then_up j)"
    by (elim exE conjE)
  have tr: "tr = [0, 1]" and r: "r = Success ''OPENAI'' ''gpt-4o-mini'' (JStr ''hi'') 120"
    using g example_generate by simp_all
  have "\<not> succeeds (down_then_up 0)" using f by (simp add: tr)
  moreover have "succeeds (down_then_up (length tr - 1))"
    by (simp add: tr down_then_up_def succeeds_ok_reply)
  ultimately show ?thesis
    using h1 h2 g d tr r by (intro conjI exI[of _ r] exI[of _ m'] exI[of _ tr]) simp_all
qed

subsection \<open>C2\<close>

text \<open>
  C2. With a list that is not empty and the index within it, when every attempt of the
  call fails, \<open>generate\<close> returns the failure result: no success, the error text
  \<open>All providers failed\<close> and provider \<open>NONE\<close>, after one attempt at each provider. The
  index is left at the last provider tried, which is where the last rotation put it: with
  \<open>n\<close> providers, \<open>n - 1\<close> places after the index the call found, so with two providers
  or more it is not the index the call found. The next call starts there.
\<close>

theorem generate_all_fail:
  assumes "providers m \<noteq> []" and "current_provider_index m < length (providers m)"
    and "\<forall>j<length (providers m). \<not> succeeds (net j)"
  shows "\<exists>m'. generate m net =
            Inr (Failure ''All providers failed'' ''NONE'', m',
                 rotated m (length (providers m))) \<and>
     r_error (Failure ''All providers failed'' ''NONE'') \<noteq> [] \<and>
     providers m' = providers m \<and>
     current_provider_index m' =
       (current_provider_index m + (length (providers m) - 1)) mod length (providers m) \<and>
     current_provider_index m' = last (rotated m (length (providers m))) \<and>
     (1 < length (providers m) \<longrightarrow> current_provider_index m' \<noteq> current_provider_index m) \<and>
     (\<forall>net'. \<exists>r' m'' tr'. generate m' net' = Inr (r', m'', tr') \<and>
               hd tr' = current_provider_index m')"
proof -
  let ?n = "length (providers m)"
  let ?i = "current_provider_index m"
  from generate_run[OF assms(1,2), of net] obtain r l where
    g: "generate m net =
          Inr (r, m\<lparr>store := replay net 0 m l,
                    current_provider_index := (?i + (l - 1)) mod ?n\<rparr>,
               rotated m l)"
    and lpos: "0 < l" and lle: "l \<le> ?n"
    and res: "if succeeds (net (l - 1))
             then fst (try_generate (net (l - 1)) (replay net 0 m (l - 1) (slot m (l - 1)))) = Inr r
             else r = Failure ''All providers failed'' ''NONE'' \<and> l = ?n"
    by (elim exE conjE)
  have "l - 1 < ?n" using lpos lle by simp
  then have "\<not> succeeds (net (l - 1))" using assms(3) by blast
  then have r: "r = Failure ''All providers failed'' ''NONE''" and l: "l = ?n"
    using res by simp_all
  let ?m' = "m\<lparr>store := replay net 0 m ?n, current_provider_index := (?i + (?n - 1)) mod ?n\<rparr>"
  have npos: "0 < ?n" using assms(1) by simp
  have c1: "generate m net = Inr (Failure ''All providers failed'' ''NONE'', ?m', rotated m ?n)"
    using g by (simp add: r l)
  have c2: "r_error (Failure ''All providers failed'' ''NONE'') \<noteq> []" by simp
  have c3: "providers ?m' = providers m" by simp
  have c4: "current_provider_index ?m' = (?i + (?n - 1)) mod ?n" by simp
  have c5: "current_provider_index ?m' = last (rotated m ?n)"
    using npos by (simp add: last_rotated)
  have c6: "1 < ?n \<longrightarrow> current_provider_index ?m' \<noteq> ?i"
  proof
    assume n2: "1 < ?n"
    show "current_provider_index ?m' \<noteq> ?i"
    proof
      assume eq: "current_provider_index ?m' = ?i"
      from c4[symmetric] eq have e: "(?i + (?n - 1)) mod ?n = ?i" by (rule trans)
      have "?i = (?i + 0) mod ?n" using assms(2) by simp
      with e have "(?i + (?n - 1)) mod ?n = (?i + 0) mod ?n" by (rule trans)
      then have "?n - 1 = 0" by (rule mod_shift_inj[rotated 2]) (use npos in simp_all)
      then show False using n2 by simp
    qed
  qed
  have c7: "\<forall>net'. \<exists>r' m'' tr'. generate ?m' net' = Inr (r', m'', tr') \<and>
               hd tr' = current_provider_index ?m'"
  proof
    fix net'
    have ne: "providers ?m' \<noteq> []" using assms(1) by simp
    have iv: "current_provider_index ?m' < length (providers ?m')" using npos by simp
    from generate_run[OF ne iv, of net'] obtain r' l' where
      g': "generate ?m' net' =
          Inr (r', ?m'\<lparr>store := replay net' 0 ?m' l',
                    current_provider_index :=
                      (current_provider_index ?m' + (l' - 1)) mod length (providers ?m')\<rparr>,
               rotated ?m' l')"
      and l'pos: "0 < l'"
      by (elim exE conjE)
    have "hd (rotated ?m' l') = current_provider_index ?m'"
      using l'pos iv by (rule hd_rotated)
    then show "\<exists>r' m'' tr'. generate ?m' net' = Inr (r', m'', tr') \<and>
               hd tr' = current_provider_index ?m'"
      using g' by blast
  qed
  show ?thesis
    using c1 c2 c3 c4 c5 c6 c7 by (intro exI[of _ ?m'] conjI)
qed


theorem generate_all_fail_witness:
  "providers (new_manager cfg_both blank_store) \<noteq> [] \<and>
   current_provider_index (new_manager cfg_both blank_store)
     < length (providers (new_manager cfg_both blank_store)) \<and>
   length (providers (new_manager cfg_both blank_store)) = 2 \<and>
   \<not> succeeds (all_down 0) \<and> \<not> succeeds (all_down 1) \<and>
   (\<exists>m'. generate (new_manager cfg_both blank_store) all_down =
            Inr (Failure ''All providers failed'' ''NONE'', m', [0, 1]) \<and>
          current_provider_index m' = 1 \<and>
          current_provider_index m' \<noteq> current_provider_index (new_manager cfg_both blank_store))"
proof -
  let ?m = "new_manager cfg_both blank_store"
  have h1: "providers ?m \<noteq> []" and h2: "current_provider_index ?m < length (providers ?m)"
    by (simp_all add: sample_both)
  have h3: "\<forall>j<length (providers ?m). \<not> succeeds (all_down j)"
    by (simp add: all_down_def not_succeeds_raised)
  from generate_all_fail[OF h1 h2 h3] obtain m' where
    g: "generate ?m all_down =
            Inr (Failure ''All providers failed'' ''NONE'', m', rotated ?m (length (providers ?m)))"
    and i: "current_provider_index m' =
       (current_provider_index ?m + (length (providers ?m) - 1)) mod length (providers ?m)"
    by (elim exE conjE)
  have g': "generate ?m all_down = Inr (Failure ''All providers failed'' ''NONE'', m', [0, 1])"
    using g unfolding rotated_both_2 .
  have i': "current_provider_index m' = 1" using i by (simp add: sample_both)
  show ?thesis
    using h1 h2 g' i'
    by (intro conjI exI[of _ m']) (simp_all add: sample_both all_down_def not_succeeds_raised)
qed

subsection \<open>C3\<close>

text \<open>
  C3. In every state a run passes through, \<open>health_check\<close> returns a boolean, whatever
  provider it is given and whatever the network answers: no exception leaves it. When a
  reply arrives, with status 200 or any other, the probed provider's \<open>latency_ms\<close> is the
  measured time and its \<open>healthy\<close> says whether the status was 200, which is also the
  value returned; a status other than 200 sets \<open>last_error\<close> to \<open>HTTP\<close> and the status.
  When the request raises instead, the result is \<open>False\<close>, \<open>healthy\<close> is \<open>False\<close>,
  \<open>last_error\<close> is the exception's text and \<open>latency_ms\<close> keeps its value. With no
  argument and an empty list the result is \<open>False\<close> and nothing is written.
\<close>

theorem health_check_never_raises:
  assumes "reachable (new_manager cfg h) m"
  shows "\<exists>b m'. health_check m provider out = Inr (b, m') \<and>
     (\<forall>a. probe_target m provider = Some a \<longrightarrow>
        (case out of
           Reply st ms tx js \<Rightarrow>
             b = (st = 200) \<and> latency_ms (store m' a) = ms \<and>
             healthy (store m' a) = (st = 200) \<and>
             (st \<noteq> 200 \<longrightarrow> last_error (store m' a) = Some (''HTTP '' @ str_nat st))
         | Raised t \<Rightarrow>
             \<not> b \<and> \<not> healthy (store m' a) \<and> last_error (store m' a) = Some t \<and>
             latency_ms (store m' a) = latency_ms (store m a))) \<and>
     (probe_target m provider = None \<longrightarrow> \<not> b \<and> m' = m)"
proof -
  have ok: "index_ok m"
    using reachable_invariant[OF assms new_manager_index_ok] by simp
  then have hc: "health_check m provider out =
     Inr (case probe_target m provider of
            None \<Rightarrow> (False, m)
          | Some a \<Rightarrow> (probe_result out, put a (after_probe out (store m a)) m))"
    by (intro health_check_effect) simp
  show ?thesis
  proof (cases "probe_target m provider")
    case None
    then show ?thesis unfolding hc by auto
  next
    case (Some a)
    show ?thesis
    proof (cases out)
      case (Raised t)
      then show ?thesis unfolding hc using Some
        by (auto simp: store_put after_probe_raised probe_result_def)
    next
      case (Reply st ms tx js)
      then show ?thesis unfolding hc using Some
        by (simp add: store_put after_probe_reply probe_result_def)
    qed
  qed
qed

theorem health_check_never_raises_witness:
  "reachable (new_manager cfg_both blank_store) (new_manager cfg_both blank_store) \<and>
   (\<exists>m'. health_check (new_manager cfg_both blank_store) None (Reply 503 250 (Inr []) (Inl ''not json''))
            = Inr (False, m') \<and>
          latency_ms (store m' 0) = 250 \<and> \<not> healthy (store m' 0) \<and>
          last_error (store m' 0) = Some ''HTTP 503'')"
proof -
  let ?m = "new_manager cfg_both blank_store"
  let ?out = "Reply 503 250 (Inr []) (Inl ''not json'')"
  have r: "reachable ?m ?m"
    by (rule reachable.start)
  have t: "probe_target ?m None = Some 0"
    by (simp add: probe_target_def new_manager_providers new_manager_fields cfg_both_def)
  have s: "str_nat 503 = ''503''" by (simp add: str_nat.simps)
  from health_check_never_raises[OF r, of None ?out] obtain b m' where
    hc: "health_check ?m None ?out = Inr (b, m')"
    and eff: "\<forall>a. probe_target ?m None = Some a \<longrightarrow>
        (case ?out of
           Reply st ms tx js \<Rightarrow>
             b = (st = 200) \<and> latency_ms (store m' a) = ms \<and>
             healthy (store m' a) = (st = 200) \<and>
             (st \<noteq> 200 \<longrightarrow> last_error (store m' a) = Some (''HTTP '' @ str_nat st))
         | Raised t \<Rightarrow>
             \<not> b \<and> \<not> healthy (store m' a) \<and> last_error (store m' a) = Some t \<and>
             latency_ms (store m' a) = latency_ms (store ?m a))"
    by (elim exE conjE)
  from eff t have
    "b = False \<and> latency_ms (store m' 0) = 250 \<and> healthy (store m' 0) = False \<and>
     last_error (store m' 0) = Some ''HTTP 503''"
    by (simp add: s)
  then show ?thesis using r hc by (intro conjI exI[of _ m']) simp_all
qed


subsection \<open>C4\<close>

text \<open>
  C4. With an empty provider list \<open>generate\<close> returns at once: the result is a failure
  with provider \<open>NONE\<close> and an error text, no attempt is made (the list of attempts is
  empty) and the manager is returned as it was. The copy under \<open>clawdbot/\<close> reaches the
  same shape through its loop, which is not entered, with the text of its last line.
\<close>

theorem generate_empty_registry:
  assumes "providers m = []"
  shows "generate m net = Inr (Failure ''No LLM providers configured'' ''NONE'', m, []) \<and>
         generate_pkg m net = Inr (Failure ''All providers failed'' ''NONE'', m, [])"
  using assms by (simp add: generate_def generate_pkg_def generate_loop_pkg.simps)

theorem generate_empty_registry_witness:
  "providers (new_manager cfg_none blank_store) = [] \<and>
   generate (new_manager cfg_none blank_store) down_then_up =
     Inr (Failure ''No LLM providers configured'' ''NONE'', new_manager cfg_none blank_store, []) \<and>
   generate_pkg (new_manager cfg_none blank_store) down_then_up =
     Inr (Failure ''All providers failed'' ''NONE'', new_manager cfg_none blank_store, [])"
proof -
  have e: "providers (new_manager cfg_none blank_store) = []"
    by (simp add: new_manager_providers cfg_none_def)
  show ?thesis
    using e generate_empty_registry[OF e, of down_then_up] by simp
qed

subsection \<open>C5\<close>



subsection \<open>C6\<close>

text \<open>
  C6, as the claim states it, fails: a reply with status 200 whose \<open>content\<close> is the empty
  string makes \<open>generate\<close> return a success result with that empty content.
\<close>

theorem generate_success_empty_content:
  "map_sum id fst (generate (new_manager cfg_local blank_store) empty_answer) =
     Inr (Success ''LOCAL'' ''default'' (JStr []) 80)"
  by (simp add: empty_answer_run)

text \<open>
  C6, amended. With an empty list, or the index within the list, \<open>generate\<close> returns
  one of two shapes. A success result carries the name and the model of the provider that
  served it, which is the one the index is left at; as content the value found under
  \<open>choices[0].message.content\<close> of that provider's reply, as it is and possibly empty;
  and as latency the time measured for that reply, which is also what the provider's
  \<open>latency_ms\<close> holds afterwards. A failure result carries an error text that is not empty
  and the provider name \<open>NONE\<close>.
\<close>

theorem generate_result_shape:
  assumes "providers m = [] \<or> current_provider_index m < length (providers m)"
  shows "\<exists>r m' tr. generate m net = Inr (r, m', tr) \<and>
     (case r of
        Success pn mo c ms \<Rightarrow>
          tr \<noteq> [] \<and> last tr = current_provider_index m' \<and>
          pn = name (store m (providers m ! last tr)) \<and>
          mo = model (store m (providers m ! last tr)) \<and>
          (\<exists>j. json_of (net (length tr - 1)) = Inr j \<and> content_of j = Inr c) \<and>
          ms = elapsed_ms (net (length tr - 1)) \<and>
          ms = latency_ms (store m' (providers m ! last tr))
      | Failure e pn \<Rightarrow> e \<noteq> [] \<and> pn = ''NONE'')"
proof (cases "providers m = []")
  case True
  then have "generate m net = Inr (Failure ''No LLM providers configured'' ''NONE'', m, [])"
    by (simp add: generate_def)
  then show ?thesis by simp
next
  case False
  let ?n = "length (providers m)"
  let ?i = "current_provider_index m"
  have iv: "?i < ?n" using assms False by simp
  from generate_run[OF False iv, of net] obtain r l where
    g: "generate m net =
          Inr (r, m\<lparr>store := replay net 0 m l,
                    current_provider_index := (?i + (l - 1)) mod ?n\<rparr>,
               rotated m l)"
    and lpos: "0 < l" and lle: "l \<le> ?n"
    and res: "if succeeds (net (l - 1))
             then fst (try_generate (net (l - 1)) (replay net 0 m (l - 1) (slot m (l - 1)))) = Inr r
             else r = Failure ''All providers failed'' ''NONE'' \<and> l = ?n"
    by (elim exE conjE)
  let ?m' = "m\<lparr>store := replay net 0 m l, current_provider_index := (?i + (l - 1)) mod ?n\<rparr>"
  let ?tr = "rotated m l"
  let ?a = "providers m ! last ?tr"
  have shape: "case r of
        Success pn mo c ms \<Rightarrow>
          ?tr \<noteq> [] \<and> last ?tr = current_provider_index ?m' \<and>
          pn = name (store m ?a) \<and> mo = model (store m ?a) \<and>
          (\<exists>j. json_of (net (length ?tr - 1)) = Inr j \<and> content_of j = Inr c) \<and>
          ms = elapsed_ms (net (length ?tr - 1)) \<and>
          ms = latency_ms (store ?m' ?a)
      | Failure e pn \<Rightarrow> e \<noteq> [] \<and> pn = ''NONE''"
  proof (cases "succeeds (net (l - 1))")
    case False
    then have "r = Failure ''All providers failed'' ''NONE''" using res by simp
    then show ?thesis by simp
  next
    case True
    let ?p = "replay net 0 m (l - 1) (slot m (l - 1))"
    have "fst (try_generate (net (l - 1)) ?p) = Inr r" using res True by simp
    from success_shape[OF True this] obtain c j where
      r: "r = Success (name ?p) (model ?p) c (elapsed_ms (net (l - 1)))"
      and j: "json_of (net (l - 1)) = Inr j" "content_of j = Inr c"
      by (elim exE conjE)
    have sl: "slot m (l - 1) = ?a" using lpos iv by (rule served_slot)
    have "identity ?p = identity (store m (slot m (l - 1)))" by (rule replay_identity)
    then have nm: "name ?p = name (store m ?a)" "model ?p = model (store m ?a)"
      using sl by (simp_all add: identity_def)
    have "replay net 0 m l (slot m (l - 1)) = after_attempt (net (l - 1)) ?p"
      using replay_last[OF lpos, of net 0 m] by simp
    then have lat: "latency_ms (store ?m' ?a) = elapsed_ms (net (l - 1))"
      using True sl by (simp add: after_attempt_success)
    have ne: "?tr \<noteq> []" using lpos by (simp add: rotated_def)
    have la: "last ?tr = current_provider_index ?m'" using lpos by (simp add: last_rotated)
    show ?thesis
      unfolding r using ne la nm j lat by (simp add: length_rotated)
  qed
  show ?thesis
    by (intro exI[of _ r] exI[of _ ?m'] exI[of _ ?tr] conjI g shape)
qed

theorem generate_result_shape_witness:
  "(providers (new_manager cfg_local blank_store) = [] \<or>
    current_provider_index (new_manager cfg_local blank_store)
      < length (providers (new_manager cfg_local blank_store))) \<and>
   (\<exists>m' tr. generate (new_manager cfg_local blank_store) empty_answer =
       Inr (Success ''LOCAL'' ''default'' (JStr []) 80, m', tr) \<and>
     content_of (chat_body []) = Inr (JStr []) \<and>
     latency_ms (store m' (providers (new_manager cfg_local blank_store) ! last tr)) = 80)"
proof -
  let ?m = "new_manager cfg_local blank_store"
  have h: "providers ?m = [] \<or> current_provider_index ?m < length (providers ?m)"
    by (simp add: new_manager_providers new_manager_fields cfg_local_def)
  from generate_result_shape[OF h, of empty_answer] obtain r m' tr where
    g: "generate ?m empty_answer = Inr (r, m', tr)"
    and sh: "case r of
        Success pn mo c ms \<Rightarrow>
          tr \<noteq> [] \<and> last tr = current_provider_index m' \<and>
          pn = name (store ?m (providers ?m ! last tr)) \<and>
          mo = model (store ?m (providers ?m ! last tr)) \<and>
          (\<exists>j. json_of (empty_answer (length tr - 1)) = Inr j \<and> content_of j = Inr c) \<and>
          ms = elapsed_ms (empty_answer (length tr - 1)) \<and>
          ms = latency_ms (store m' (providers ?m ! last tr))
      | Failure e pn \<Rightarrow> e \<noteq> [] \<and> pn = ''NONE''"
    by (elim exE conjE)
  have r: "r = Success ''LOCAL'' ''default'' (JStr []) 80"
    using g empty_answer_run by simp
  note sh' = sh[unfolded r gen_result.case]
  from sh' have "latency_ms (store m' (providers ?m ! last tr)) = 80"
    by (elim conjE) (rule sym, assumption)
  then show ?thesis
    using h g r by (intro conjI exI[of _ m'] exI[of _ tr]) (simp_all add: content_of_chat_body)
qed

subsection \<open>C7\<close>

text \<open>
  C7, as the claim states it, fails on the copy under \<open>clawdbot/\<close>: with no local
  endpoint configured its list still starts with a LOCAL provider, whose endpoint is empty.
\<close>

theorem setup_providers_pkg_keeps_local:
  "LOCAL_LLM_API_BASE cfg_none = [] \<and>
   map (store (new_manager_pkg cfg_none blank_store)) (providers (new_manager_pkg cfg_none blank_store)) =
     [LLMProvider ''LOCAL'' [] [] None 60]"
  by (simp add: new_manager_pkg_def setup_providers_pkg_def append_provider_def cfg_none_def Let_def)

text \<open>
  C7, amended. \<open>bot.py\<close> builds the list as claimed: LOCAL first and only when
  \<open>LOCAL_LLM_API_BASE\<close> is set (its model \<open>default\<close> when none is configured), then
  OPENAI only when a key is set, at \<open>https://api.openai.com/v1\<close> with model
  \<open>gpt-4o-mini\<close> and a timeout of 30 seconds; what is not configured is left out, and
  the index starts at 0. The copy under \<open>clawdbot/\<close> appends LOCAL in every case, with
  endpoint and model as configured, and then OPENAI under the same condition.
\<close>

theorem provider_list_construction:
  "map (store (new_manager cfg h)) (providers (new_manager cfg h)) =
     (if LOCAL_LLM_API_BASE cfg \<noteq> []
      then [LLMProvider ''LOCAL'' (LOCAL_LLM_API_BASE cfg)
              (if LOCAL_LLM_MODEL cfg \<noteq> [] then LOCAL_LLM_MODEL cfg else ''default'')
              None (LOCAL_LLM_TIMEOUT cfg)]
      else []) @
     (if OPENAI_API_KEY cfg \<noteq> None \<and> OPENAI_API_KEY cfg \<noteq> Some []
      then [LLMProvider ''OPENAI'' ''https://api.openai.com/v1'' ''gpt-4o-mini''
              (OPENAI_API_KEY cfg) 30]
      else []) \<and>
   current_provider_index (new_manager cfg h) = 0 \<and>
   map (store (new_manager_pkg cfg h)) (providers (new_manager_pkg cfg h)) =
     [LLMProvider ''LOCAL'' (LOCAL_LLM_API_BASE cfg) (LOCAL_LLM_MODEL cfg)
        None (LOCAL_LLM_TIMEOUT cfg)] @
     (if OPENAI_API_KEY cfg \<noteq> None \<and> OPENAI_API_KEY cfg \<noteq> Some []
      then [LLMProvider ''OPENAI'' ''https://api.openai.com/v1'' ''gpt-4o-mini''
              (OPENAI_API_KEY cfg) 30]
      else []) \<and>
   current_provider_index (new_manager_pkg cfg h) = 0"
  by (simp add: new_manager_def setup_providers_def new_manager_pkg_def setup_providers_pkg_def
      append_provider_def Let_def)

theorem provider_list_construction_witness:
  "map (store (new_manager cfg_both blank_store)) (providers (new_manager cfg_both blank_store)) =
     [LLMProvider ''LOCAL'' ''http://127.0.0.1:8000/v1'' ''llama'' None 45,
      LLMProvider ''OPENAI'' ''https://api.openai.com/v1'' ''gpt-4o-mini'' (Some ''sk-test'') 30] \<and>
   map (store (new_manager cfg_none blank_store)) (providers (new_manager cfg_none blank_store)) = [] \<and>
   map (store (new_manager_pkg cfg_both blank_store)) (providers (new_manager_pkg cfg_both blank_store)) =
     [LLMProvider ''LOCAL'' ''http://127.0.0.1:8000/v1'' ''llama'' None 45,
      LLMProvider ''OPENAI'' ''https://api.openai.com/v1'' ''gpt-4o-mini'' (Some ''sk-test'') 30]"
  using provider_list_construction[of cfg_both blank_store]
    provider_list_construction[of cfg_none blank_store]
  by (simp add: cfg_both_def cfg_none_def)

subsection \<open>C8\<close>

text \<open>
  C8, as the claim states it, fails. A provider whose probe timed out holds the text of
  that failure in \<open>last_error\<close>; a health check that then succeeds, and likewise a
  generation that then succeeds, leaves the text where it is.
\<close>

theorem last_error_survives_success:
  "last_error (store local_failed 0) = Some ''timeout'' \<and>
   map_sum id fst (health_check local_failed None (ok_reply 80 ''OK'')) = Inr True \<and>
   last_error (store (after_health_check local_failed None (ok_reply 80 ''OK'')) 0) = Some ''timeout'' \<and>
   map_sum id fst (generate local_failed always_ok) =
     Inr (Success ''LOCAL'' ''default'' (JStr ''OK'') 80) \<and>
   last_error (store (after_generate local_failed always_ok) 0) = Some ''timeout''"
  by (simp add: local_failed_probe local_failed_generate) (simp add: local_failed_eq)

text \<open>
  C8, amended. A call that succeeds sets \<open>healthy\<close> and leaves \<open>last_error\<close> as it
  was: after a health check that returns \<open>True\<close> the probed provider is healthy and
  every provider's \<open>last_error\<close> is what it was before, and after a \<open>generate\<close> that
  returns a success result (the provider objects of the list being distinct) the provider
  that served it is healthy and its \<open>last_error\<close> is what it was before the call. No
  operation clears the field: a \<open>last_error\<close> that is set stays set, in every provider,
  through any \<open>health_check\<close> and any \<open>generate\<close> that return, and
  \<open>switch_to_next_provider\<close> writes no provider at all.
\<close>

theorem success_keeps_last_error:
  "(health_check m provider out = Inr (True, m2) \<longrightarrow>
      (\<exists>a. probe_target m provider = Some a \<and> healthy (store m2 a)) \<and>
      (\<forall>a. last_error (store m2 a) = last_error (store m a))) \<and>
   (providers m \<noteq> [] \<and> current_provider_index m < length (providers m) \<and>
    distinct (providers m) \<longrightarrow>
      (\<exists>r m' tr. generate m net = Inr (r, m', tr) \<and>
         ((\<exists>pn mo c ms. r = Success pn mo c ms) \<longrightarrow>
            healthy (store m' (providers m ! last tr)) \<and>
            last_error (store m' (providers m ! last tr)) =
              last_error (store m (providers m ! last tr))))) \<and>
   (health_check m provider out = Inr (b, m3) \<and> last_error (store m a) \<noteq> None \<longrightarrow>
      last_error (store m3 a) \<noteq> None) \<and>
   (generate m net = Inr (r4, m4, tr4) \<and> last_error (store m a) \<noteq> None \<longrightarrow>
      last_error (store m4 a) \<noteq> None) \<and>
   (switch_to_next_provider m = Inr m5 \<longrightarrow> store m5 = store m)"
proof (intro conjI impI)
  assume "health_check m provider out = Inr (True, m2)"
  from health_check_True_target[OF this] obtain a ms where
    t: "probe_target m provider = Some a"
    and m2: "m2 = put a ((store m a)\<lparr>latency_ms := ms, healthy := True\<rparr>) m"
    by (elim exE conjE)
  have "healthy (store m2 a)" using m2 by (simp add: put_def)
  then show "\<exists>a. probe_target m provider = Some a \<and> healthy (store m2 a)"
    using t by (intro exI conjI)
  show "\<forall>a. last_error (store m2 a) = last_error (store m a)"
    using m2 by (simp add: put_def)
next
  let ?n = "length (providers m)"
  let ?i = "current_provider_index m"
  assume a: "providers m \<noteq> [] \<and> ?i < ?n \<and> distinct (providers m)"
  then have ne: "providers m \<noteq> []" and iv: "?i < ?n" and di: "distinct (providers m)"
    by simp_all
  from generate_run[OF ne iv, of net] obtain r l where
    g: "generate m net =
          Inr (r, m\<lparr>store := replay net 0 m l,
                    current_provider_index := (?i + (l - 1)) mod ?n\<rparr>,
               rotated m l)"
    and lpos: "0 < l" and lle: "l \<le> ?n"
    and res: "if succeeds (net (l - 1))
             then fst (try_generate (net (l - 1)) (replay net 0 m (l - 1) (slot m (l - 1)))) = Inr r
             else r = Failure ''All providers failed'' ''NONE'' \<and> l = ?n"
    by (elim exE conjE)
  let ?m' = "m\<lparr>store := replay net 0 m l, current_provider_index := (?i + (l - 1)) mod ?n\<rparr>"
  let ?tr = "rotated m l"
  let ?a = "providers m ! last ?tr"
  have keep: "(\<exists>pn mo c ms. r = Success pn mo c ms) \<longrightarrow>
            healthy (store ?m' ?a) \<and> last_error (store ?m' ?a) = last_error (store m ?a)"
  proof
    assume "\<exists>pn mo c ms. r = Success pn mo c ms"
    then have ok: "succeeds (net (l - 1))" using res by (auto split: if_splits)
    have sl: "slot m (l - 1) = ?a" using lpos iv by (rule served_slot)
    have "replay net 0 m l (slot m (l - 1)) =
        after_attempt (net (0 + (l - 1))) (store m (slot m (l - 1)))"
      using slot_inj[OF di lle] lpos by (intro replay_at) simp_all
    then have "store ?m' ?a = after_attempt (net (l - 1)) (store m ?a)"
      using sl by simp
    then show "healthy (store ?m' ?a) \<and> last_error (store ?m' ?a) = last_error (store m ?a)"
      using ok by (simp add: after_attempt_success)
  qed
  show "\<exists>r m' tr. generate m net = Inr (r, m', tr) \<and>
         ((\<exists>pn mo c ms. r = Success pn mo c ms) \<longrightarrow>
            healthy (store m' (providers m ! last tr)) \<and>
            last_error (store m' (providers m ! last tr)) =
              last_error (store m (providers m ! last tr)))"
    by (intro exI[of _ r] exI[of _ ?m'] exI[of _ ?tr] conjI g keep)
next
  assume h: "health_check m provider out = Inr (b, m3) \<and> last_error (store m a) \<noteq> None"
  then have e: "(b, m3) = (case probe_target m provider of
            None \<Rightarrow> (False, m)
          | Some a \<Rightarrow> (probe_result out, put a (after_probe out (store m a)) m))"
    by (intro health_check_Inr) simp
  show "last_error (store m3 a) \<noteq> None"
  proof (cases "probe_target m provider")
    case None
    then show ?thesis using e h by simp
  next
    case (Some a')
    then have "m3 = put a' (after_probe out (store m a')) m" using e by simp
    then show ?thesis using h after_probe_keeps_error[of "store m a" out]
      by (cases "a = a'") (simp_all add: put_def)
  qed
next
  assume h: "generate m net = Inr (r4, m4, tr4) \<and> last_error (store m a) \<noteq> None"
  then have g4: "generate m net = Inr (r4, m4, tr4)" and le: "last_error (store m a) \<noteq> None"
    by simp_all
  have ok: "index_ok m" using g4 by (rule generate_Inr_index_ok)
  show "last_error (store m4 a) \<noteq> None"
  proof (cases "providers m = []")
    case True
    then have "generate m net = Inr (Failure ''No LLM providers configured'' ''NONE'', m, [])"
      by (simp add: generate_def)
    then have "m4 = m" using g4 by simp
    then show ?thesis using le by simp
  next
    case False
    then have iv: "current_provider_index m < length (providers m)"
      using ok by (simp add: index_ok_def)
    from generate_run[OF False iv, of net] obtain r l where
      g: "generate m net =
          Inr (r, m\<lparr>store := replay net 0 m l,
                    current_provider_index :=
                      (current_provider_index m + (l - 1)) mod length (providers m)\<rparr>,
               rotated m l)"
      by (elim exE conjE)
    then have "store m4 = replay net 0 m l" using g4 by simp
    then show ?thesis using replay_keeps_error[OF le, of net 0 l] by simp
  qed
next
  assume "switch_to_next_provider m = Inr m5"
  then show "store m5 = store m" using switch_store by blast
qed

theorem success_keeps_last_error_witness:
  "health_check local_failed None (ok_reply 80 ''OK'') =
     Inr (True, after_health_check local_failed None (ok_reply 80 ''OK'')) \<and>
   providers local_failed \<noteq> [] \<and>
   current_provider_index local_failed < length (providers local_failed) \<and>
   distinct (providers local_failed) \<and>
   last_error (store local_failed 0) \<noteq> None \<and>
   last_error (store (after_health_check local_failed None (ok_reply 80 ''OK'')) 0) =
     last_error (store local_failed 0) \<and>
   last_error (store (after_health_check local_failed None (ok_reply 80 ''OK'')) 0) \<noteq> None \<and>
   (\<exists>r m' tr. generate local_failed always_ok = Inr (r, m', tr) \<and>
      r = Success ''LOCAL'' ''default'' (JStr ''OK'') 80 \<and>
      last_error (store m' (providers local_failed ! last tr)) =
        last_error (store local_failed (providers local_failed ! last tr)) \<and>
      last_error (store m' 0) \<noteq> None)"
proof -
  let ?m2 = "after_health_check local_failed None (ok_reply 80 ''OK'')"
  let ?m4 = "after_generate local_failed always_ok"
  have h1: "health_check local_failed None (ok_reply 80 ''OK'') = Inr (True, ?m2)"
    by (rule local_failed_probe)
  have h2: "providers local_failed \<noteq> [] \<and>
      current_provider_index local_failed < length (providers local_failed) \<and>
      distinct (providers local_failed)"
    by (simp add: local_failed_fields)
  have h0: "last_error (store local_failed 0) \<noteq> None"
    by (simp add: local_failed_eq)
  have g4: "generate local_failed always_ok =
      Inr (Success ''LOCAL'' ''default'' (JStr ''OK'') 80, ?m4, [0])"
    by (rule local_failed_generate)
  note t = success_keeps_last_error[of local_failed None "ok_reply 80 ''OK''" ?m2 always_ok
      True ?m2 0 "Success ''LOCAL'' ''default'' (JStr ''OK'') 80" ?m4 "[0]"]
  have "\<forall>a. last_error (store ?m2 a) = last_error (store local_failed a)"
    using t[THEN conjunct1, THEN mp, OF h1, THEN conjunct2] .
  then have c1: "last_error (store ?m2 0) = last_error (store local_failed 0)" ..
  have c3: "last_error (store ?m2 0) \<noteq> None"
    using t[THEN conjunct2, THEN conjunct2, THEN conjunct1, THEN mp, OF conjI, OF h1 h0] .
  have c4: "last_error (store ?m4 0) \<noteq> None"
    using t[THEN conjunct2, THEN conjunct2, THEN conjunct2, THEN conjunct1, THEN mp, OF conjI,
        OF g4 h0] .
  from t[THEN conjunct2, THEN conjunct1, THEN mp, OF h2] obtain r m' tr where
    g: "generate local_failed always_ok = Inr (r, m', tr)"
    and k: "(\<exists>pn mo c ms. r = Success pn mo c ms) \<longrightarrow>
            healthy (store m' (providers local_failed ! last tr)) \<and>
            last_error (store m' (providers local_failed ! last tr)) =
              last_error (store local_failed (providers local_failed ! last tr))"
    by (elim exE conjE)
  have r: "r = Success ''LOCAL'' ''default'' (JStr ''OK'') 80" and m': "m' = ?m4"
    using g g4 by simp_all
  have "\<exists>pn mo c ms. r = Success pn mo c ms" using r by (intro exI)
  then have c2: "last_error (store m' (providers local_failed ! last tr)) =
              last_error (store local_failed (providers local_failed ! last tr))"
    using k by (elim impE conjE)
  have c5: "last_error (store m' 0) \<noteq> None" using c4 m' by simp
  have ex: "\<exists>r m' tr. generate local_failed always_ok = Inr (r, m', tr) \<and>
      r = Success ''LOCAL'' ''default'' (JStr ''OK'') 80 \<and>
      last_error (store m' (providers local_failed ! last tr)) =
        last_error (store local_failed (providers local_failed ! last tr)) \<and>
      last_error (store m' 0) \<noteq> None"
    by (intro exI[of _ r] exI[of _ m'] exI[of _ tr] conjI g r c2 c5)
  show ?thesis
    by (intro conjI h1 h2[THEN conjunct1] h2[THEN conjunct2, THEN conjunct1]
        h2[THEN conjunct2, THEN conjunct2] h0 c1 c3 ex)
qed

subsection \<open>C9\<close>

text \<open>
  C9. In every state that a run passes through from a newly constructed manager, by
  \<open>switch_to_next_provider\<close>, \<open>generate\<close> and \<open>health_check\<close> in any order and with any
  answers of the network, the index is below the length of the list whenever the list is
  not empty; the list of provider objects is the one built at construction, in the same
  order, and each object keeps its name, endpoint, model, key and timeout. The starting
  state is among these states, so this holds right after construction. None of the three
  operations raises in such a state, so each of them leads to a next state.
\<close>

theorem index_invariant:
  assumes "reachable (new_manager cfg h) m"
  shows "(providers m \<noteq> [] \<longrightarrow> current_provider_index m < length (providers m)) \<and>
         providers m = providers (new_manager cfg h) \<and>
         (\<forall>a. identity (store m a) = identity (store (new_manager cfg h) a)) \<and>
         (\<exists>m'. switch_to_next_provider m = Inr m') \<and>
         (\<forall>net. \<exists>r m' tr. generate m net = Inr (r, m', tr)) \<and>
         (\<forall>provider out. \<exists>b m'. health_check m provider out = Inr (b, m'))"
proof -
  have inv: "index_ok m \<and> same_registry (new_manager cfg h) m"
    using assms new_manager_index_ok by (rule reachable_invariant)
  then have ok: "index_ok m" by simp
  have a: "providers m \<noteq> [] \<longrightarrow> current_provider_index m < length (providers m)"
    using ok by (auto simp: index_ok_def)
  have b: "providers m = providers (new_manager cfg h)"
    and c: "\<forall>a. identity (store m a) = identity (store (new_manager cfg h) a)"
    using inv by (simp_all add: same_registry_def)
  show ?thesis
    using a b c reachable_total[OF ok] by (intro conjI) (elim conjE, assumption)+
qed

theorem index_invariant_witness:
  "reachable (new_manager cfg_both blank_store)
     (after_generate (new_manager cfg_both blank_store) down_then_up) \<and>
   current_provider_index (after_generate (new_manager cfg_both blank_store) down_then_up) = 1 \<and>
   providers (after_generate (new_manager cfg_both blank_store) down_then_up) = [0, 1] \<and>
   name (store (after_generate (new_manager cfg_both blank_store) down_then_up) 0) = ''LOCAL''"
proof -
  let ?m0 = "new_manager cfg_both blank_store"
  let ?m1 = "after_generate ?m0 down_then_up"
  have r: "reachable ?m0 ?m1"
    using reachable.start[of ?m0] example_generate by (rule reachable.gen)
  have p0: "providers ?m0 = [0, 1]"
    by (simp add: new_manager_providers cfg_both_def)
  have n0: "identity (store ?m0 0) =
      (''LOCAL'', ''http://127.0.0.1:8000/v1'', ''llama'', None, 45)"
    by (simp add: identity_def new_manager_def setup_providers_def append_provider_def
        cfg_both_def Let_def LLMProvider_def)
  note inv = index_invariant[OF r]
  have p1: "providers ?m1 = providers ?m0"
    using inv by (elim conjE)
  have "\<forall>a. identity (store ?m1 a) = identity (store ?m0 a)"
    using inv by (elim conjE)
  then have "identity (store ?m1 0) = identity (store ?m0 0)" ..
  then have n1: "name (store ?m1 0) = ''LOCAL''"
    unfolding n0 by (simp add: identity_def)
  show ?thesis
    using r p1 p0 n1 example_generate_index by (intro conjI) simp_all
qed

subsection \<open>C10\<close>

text \<open>
  C10, as the claim states it, fails for a malformed body. A reply with status 200 whose
  JSON has no \<open>choices\<close> makes the attempt fail, and the call with it; the provider's
  \<open>latency_ms\<close>, 0 before the call, holds the measured 5 milliseconds after it.
\<close>

theorem failed_attempt_writes_latency:
  "\<not> succeeds (garbled 0) \<and>
   map_sum id fst (generate (new_manager cfg_local blank_store) garbled) =
     Inr (Failure ''All providers failed'' ''NONE'') \<and>
   latency_ms (store (new_manager cfg_local blank_store) 0) = 0 \<and>
   latency_ms (store (after_generate (new_manager cfg_local blank_store) garbled) 0) = 5"
  by (simp add: garbled_run garbled_fails)

text \<open>
  C10, amended. Within \<open>generate\<close> (the provider objects of the list being distinct),
  every failed attempt leaves its provider with \<open>healthy = False\<close> and a \<open>last_error\<close>.
  Its \<open>latency_ms\<close> is unchanged when no reply came or the status was not 200; when the
  status was 200 and the body could not be used, \<open>latency_ms\<close> holds the time measured
  for that reply, written before the body was read. \<open>health_check\<close> writes
  \<open>latency_ms\<close> on every reply, whatever its status.
\<close>

theorem failed_attempt_effect:
  assumes "providers m \<noteq> []" and "current_provider_index m < length (providers m)"
    and "distinct (providers m)"
  shows "(\<exists>r m' tr. generate m net = Inr (r, m', tr) \<and>
     (\<forall>k<length tr. \<not> succeeds (net k) \<longrightarrow>
        \<not> healthy (store m' (providers m ! (tr ! k))) \<and>
        (\<exists>t. last_error (store m' (providers m ! (tr ! k))) = Some t) \<and>
        latency_ms (store m' (providers m ! (tr ! k))) =
          (if replied_200 (net k) then elapsed_ms (net k)
           else latency_ms (store m (providers m ! (tr ! k)))))) \<and>
   (\<forall>provider st ms tx js b m2 a.
      health_check m provider (Reply st ms tx js) = Inr (b, m2) \<and>
      probe_target m provider = Some a \<longrightarrow> latency_ms (store m2 a) = ms)"
proof (intro conjI allI impI)
  fix provider st ms tx js b m2 a
  assume h: "health_check m provider (Reply st ms tx js) = Inr (b, m2) \<and>
      probe_target m provider = Some a"
  then have "m2 = put a (after_probe (Reply st ms tx js) (store m a)) m"
    using health_check_Inr[of m provider "Reply st ms tx js" b m2] by simp
  then show "latency_ms (store m2 a) = ms"
    by (simp add: store_put after_probe_reply)
next
  let ?n = "length (providers m)"
  let ?i = "current_provider_index m"
  from generate_run[OF assms(1,2), of net] obtain r l where
    g: "generate m net =
          Inr (r, m\<lparr>store := replay net 0 m l,
                    current_provider_index := (?i + (l - 1)) mod ?n\<rparr>,
               rotated m l)"
    and lle: "l \<le> ?n"
    by (elim exE conjE)
  let ?m' = "m\<lparr>store := replay net 0 m l, current_provider_index := (?i + (l - 1)) mod ?n\<rparr>"
  let ?tr = "rotated m l"
  have eff: "\<forall>k<length ?tr. \<not> succeeds (net k) \<longrightarrow>
        \<not> healthy (store ?m' (providers m ! (?tr ! k))) \<and>
        (\<exists>t. last_error (store ?m' (providers m ! (?tr ! k))) = Some t) \<and>
        latency_ms (store ?m' (providers m ! (?tr ! k))) =
          (if replied_200 (net k) then elapsed_ms (net k)
           else latency_ms (store m (providers m ! (?tr ! k))))"
  proof (intro allI impI)
    fix k assume "k < length ?tr" and f: "\<not> succeeds (net k)"
    then have kl: "k < l" by (simp add: length_rotated)
    have ad: "providers m ! (?tr ! k) = slot m k"
      using kl by (simp add: nth_rotated slot_def)
    have "replay net 0 m l (slot m k) = after_attempt (net (0 + k)) (store m (slot m k))"
      using slot_inj[OF assms(3) lle] kl by (rule replay_at)
    then have st: "store ?m' (slot m k) = after_attempt (net k) (store m (slot m k))"
      by simp
    from after_attempt_failure[OF f, of "store m (slot m k)"] obtain t where
      "after_attempt (net k) (store m (slot m k)) =
         (if replied_200 (net k) then (store m (slot m k))\<lparr>latency_ms := elapsed_ms (net k)\<rparr>
          else store m (slot m k))\<lparr>healthy := False, last_error := Some t\<rparr>"
      by (elim exE)
    then show "\<not> healthy (store ?m' (providers m ! (?tr ! k))) \<and>
        (\<exists>t. last_error (store ?m' (providers m ! (?tr ! k))) = Some t) \<and>
        latency_ms (store ?m' (providers m ! (?tr ! k))) =
          (if replied_200 (net k) then elapsed_ms (net k)
           else latency_ms (store m (providers m ! (?tr ! k))))"
      unfolding ad st by simp
  qed
  show "\<exists>r m' tr. generate m net = Inr (r, m', tr) \<and>
     (\<forall>k<length tr. \<not> succeeds (net k) \<longrightarrow>
        \<not> healthy (store m' (providers m ! (tr ! k))) \<and>
        (\<exists>t. last_error (store m' (providers m ! (tr ! k))) = Some t) \<and>
        latency_ms (store m' (providers m ! (tr ! k))) =
          (if replied_200 (net k) then elapsed_ms (net k)
           else latency_ms (store m (providers m ! (tr ! k)))))"
    by (intro exI[of _ r] exI[of _ ?m'] exI[of _ ?tr] conjI g eff)
qed

theorem failed_attempt_effect_witness:
  "providers (new_manager cfg_both blank_store) \<noteq> [] \<and>
   current_provider_index (new_manager cfg_both blank_store)
     < length (providers (new_manager cfg_both blank_store)) \<and>
   distinct (providers (new_manager cfg_both blank_store)) \<and>
   (\<exists>r m' tr. generate (new_manager cfg_both blank_store) down_then_up = Inr (r, m', tr) \<and>
      tr = [0, 1] \<and> \<not> succeeds (down_then_up 0) \<and> \<not> replied_200 (down_then_up 0) \<and>
      \<not> healthy (store m' 0) \<and>
      latency_ms (store m' 0) = latency_ms (store (new_manager cfg_both blank_store) 0))"
proof -
  let ?m = "new_manager cfg_both blank_store"
  have h1: "providers ?m \<noteq> []" and h2: "current_provider_index ?m < length (providers ?m)"
    and h3: "distinct (providers ?m)"
    by (simp_all add: sample_both)
  have f0: "\<not> succeeds (down_then_up 0)" and n0: "\<not> replied_200 (down_then_up 0)"
    by (simp_all add: down_then_up_def not_succeeds_raised replied_200_def)
  from failed_attempt_effect[OF h1 h2 h3, of down_then_up, THEN conjunct1] obtain r m' tr where
    g: "generate ?m down_then_up = Inr (r, m', tr)"
    and e: "\<forall>k<length tr. \<not> succeeds (down_then_up k) \<longrightarrow>
        \<not> healthy (store m' (providers ?m ! (tr ! k))) \<and>
        (\<exists>t. last_error (store m' (providers ?m ! (tr ! k))) = Some t) \<and>
        latency_ms (store m' (providers ?m ! (tr ! k))) =
          (if replied_200 (down_then_up k) then elapsed_ms (down_then_up k)
           else latency_ms (store ?m (providers ?m ! (tr ! k))))"
    by (elim exE conjE)
  have tr: "tr = [0, 1]" using g example_generate by simp
  have "0 < length tr" by (simp add: tr)
  with e f0 have
    "\<not> healthy (store m' (providers ?m ! (tr ! 0))) \<and>
        (\<exists>t. last_error (store m' (providers ?m ! (tr ! 0))) = Some t) \<and>
        latency_ms (store m' (providers ?m ! (tr ! 0))) =
          (if replied_200 (down_then_up 0) then elapsed_ms (down_then_up 0)
           else latency_ms (store ?m (providers ?m ! (tr ! 0))))"
    by blast
  then have c: "\<not> healthy (store m' 0) \<and> latency_ms (store m' 0) = latency_ms (store ?m 0)"
    using n0 by (simp add: tr sample_both)
  show ?thesis
    using h1 h2 h3 g tr f0 n0 c by (intro conjI exI[of _ r] exI[of _ m'] exI[of _ tr]) simp_all
qed

end
